theory Spec2Isabelle
  imports Main "HOL-Library.Sublist" "HOL-Library.Word"
begin

text \<open>
  A shallow embedding of the pipeline engine of the e-commerce processor: the
  configuration models, the processing context with its ledger of errors and warnings,
  the filter, aggregate, validate and transform steps, the static, direct and formula
  transformers, and \<open>PipelineEngine.process\<close>. Exceptions are values (\<open>Inl\<close> of a sum),
  the mutable context is passed along and returned, and the tables live in a heap of
  DataFrames so that assignments in place and copies are told apart. What pandas and the
  Python runtime compute on cells is a parameter of the model.
\<close>

section \<open>Values, exceptions and severities\<close>

text \<open>
  A Python float other than NaN is its IEEE-754 bit pattern. No definition below computes
  with floats: they are carried around in cells and configuration values, and every
  operation on them is one of the library primitives.
\<close>

datatype pyfloat = Float64 "64 word"

datatype pyval =
    PNone
  | PNaN
  | PBool bool
  | PInt int
  | PFloat pyfloat
  | PStr string
  | PList "pyval list"
  | PDict "(string \<times> pyval) list"

text \<open>A raised exception: its class name and its message (\<open>str(e)\<close>).\<close>

datatype pyexn = PyExn string string

fun exn_str :: "pyexn \<Rightarrow> string" where
  "exn_str (PyExn cls msg) = msg"

datatype ErrorSeverity = INFO | WARNING | ERROR | CRITICAL

section \<open>Configuration models (core/config\_models.py)\<close>

datatype FilterOperator =
    EQUALS | NOT_EQUALS | CONTAINS | NOT_CONTAINS | IN | NOT_IN
  | GREATER_THAN | LESS_THAN | GREATER_EQUAL | LESS_EQUAL
  | IS_NULL | IS_NOT_NULL | STARTS_WITH | ENDS_WITH

datatype AggregateFunction =
  Agg_SUM | Agg_MAX | Agg_MIN | Agg_MEAN | Agg_FIRST | Agg_LAST | Agg_FIRST_NON_NULL
  | Agg_COUNT | Agg_CONCAT

datatype TransformType =
    STATIC | DIRECT | LOOKUP | DATE | PHONE | FORMULA
  | CURRENCY_CONVERT | TAX_EXCLUDE | CLEAN | CONDITIONAL

datatype LookupStrategy = DIRECT_MAP | COUNTRY_MAP | CURRENCY_MAP | ORDER_PREFIX

datatype TaxStrategy = SUBTRACT | DIVIDE | PRE_CALCULATED

datatype DataTransform = TO_STRING | TO_NUMERIC | TO_UPPER | TO_LOWER | STRIP

record FilterCondition =
  column :: string
  operator :: FilterOperator
  cvalue :: pyval
  case_sensitive :: bool
  skip_if_column_missing :: bool

datatype FilterMode = all_of | any_of

record FilterConfig =
  mode :: FilterMode
  conditions :: "FilterCondition list"

record AggregationRule =
  source :: string
  agg_function :: AggregateFunction
  agg_coerce_numeric :: bool
  separator :: string

text \<open>Python dicts keep insertion order; a dict is an association list with distinct keys.\<close>

record AggregateConfig =
  group_by :: string
  aggregations :: "(string \<times> AggregationRule) list"

record LookupConfig =
  lk_strategy :: LookupStrategy
  lk_source_column :: string
  lk_mapping :: "(string \<times> pyval) list"
  lk_default :: pyval
  lk_prefix_length :: "int option"

record DateConfig =
  dt_source_column :: string
  dt_input_format :: string
  dt_output_format :: string

record PhoneConfig =
  country_column :: string
  phone_column :: string

record FormulaConfig =
  expression :: string
  coerce_numeric :: bool

record CurrencyConvertConfig =
  cc_source_column :: string
  source_currency :: string
  target_currency_column :: string
  rates_ref :: string

record TaxExcludeConfig =
  tx_strategy :: TaxStrategy
  amount_column :: string
  tax_column :: "string option"
  pre_tax_column :: "string option"
  divisor_lookup_column :: "string option"
  divisors_ref :: string

record CleanConfig =
  cl_source_column :: string
  pattern :: string
  replacement :: string

record ConditionalBranch =
  br_when :: string
  br_then :: pyval

record ConditionalConfig =
  cd_source_column :: string
  cd_conditions :: "ConditionalBranch list"
  else_value :: pyval

text \<open>
  \<open>FieldMapping\<close>: the type tag and one optional attribute per variant. The attribute
  \<open>value\<close> has type \<open>Any\<close> with default \<open>None\<close>, so its absence is \<open>PNone\<close>.
\<close>

record FieldMapping =
  fm_type :: TransformType
  fm_value :: pyval
  fm_source_column :: "string option"
  fm_transform :: "DataTransform option"
  fm_lookup :: "LookupConfig option"
  fm_date :: "DateConfig option"
  fm_phone :: "PhoneConfig option"
  fm_formula :: "FormulaConfig option"
  fm_currency :: "CurrencyConvertConfig option"
  fm_tax :: "TaxExcludeConfig option"
  fm_clean :: "CleanConfig option"
  fm_conditional :: "ConditionalConfig option"

text \<open>The names of the attributes, as \<open>type_config_map\<close> of the validator lists them.\<close>

datatype attr_name =
    A_value | A_source_column | A_lookup | A_date | A_phone | A_formula
  | A_currency | A_tax | A_clean | A_conditional

fun type_config_map :: "TransformType \<Rightarrow> attr_name option" where
  "type_config_map STATIC = Some A_value"
| "type_config_map DIRECT = Some A_source_column"
| "type_config_map LOOKUP = Some A_lookup"
| "type_config_map DATE = Some A_date"
| "type_config_map PHONE = Some A_phone"
| "type_config_map FORMULA = Some A_formula"
| "type_config_map CURRENCY_CONVERT = Some A_currency"
| "type_config_map TAX_EXCLUDE = Some A_tax"
| "type_config_map CLEAN = Some A_clean"
| "type_config_map CONDITIONAL = Some A_conditional"

text \<open>\<open>getattr(self, required_field, None) is None\<close>.\<close>

fun attr_is_none :: "FieldMapping \<Rightarrow> attr_name \<Rightarrow> bool" where
  "attr_is_none m A_value = (fm_value m = PNone)"
| "attr_is_none m A_source_column = (fm_source_column m = None)"
| "attr_is_none m A_lookup = (fm_lookup m = None)"
| "attr_is_none m A_date = (fm_date m = None)"
| "attr_is_none m A_phone = (fm_phone m = None)"
| "attr_is_none m A_formula = (fm_formula m = None)"
| "attr_is_none m A_currency = (fm_currency m = None)"
| "attr_is_none m A_tax = (fm_tax m = None)"
| "attr_is_none m A_clean = (fm_clean m = None)"
| "attr_is_none m A_conditional = (fm_conditional m = None)"

text \<open>
  The text of a transform type and of an attribute name in a message (an f-string prints
  a member of this enum by its qualified name since Python 3.11).
\<close>

fun transform_type_str :: "TransformType \<Rightarrow> string" where
  "transform_type_str STATIC = ''TransformType.STATIC''"
| "transform_type_str DIRECT = ''TransformType.DIRECT''"
| "transform_type_str LOOKUP = ''TransformType.LOOKUP''"
| "transform_type_str DATE = ''TransformType.DATE''"
| "transform_type_str PHONE = ''TransformType.PHONE''"
| "transform_type_str FORMULA = ''TransformType.FORMULA''"
| "transform_type_str CURRENCY_CONVERT = ''TransformType.CURRENCY_CONVERT''"
| "transform_type_str TAX_EXCLUDE = ''TransformType.TAX_EXCLUDE''"
| "transform_type_str CLEAN = ''TransformType.CLEAN''"
| "transform_type_str CONDITIONAL = ''TransformType.CONDITIONAL''"

fun attr_str :: "attr_name \<Rightarrow> string" where
  "attr_str A_value = ''value''"
| "attr_str A_source_column = ''source_column''"
| "attr_str A_lookup = ''lookup''"
| "attr_str A_date = ''date''"
| "attr_str A_phone = ''phone''"
| "attr_str A_formula = ''formula''"
| "attr_str A_currency = ''currency''"
| "attr_str A_tax = ''tax''"
| "attr_str A_clean = ''clean''"
| "attr_str A_conditional = ''conditional''"

text \<open>
  \<open>FieldMapping.validate_type_config\<close>, the model validator run when a mapping is
  constructed: \<open>Inl\<close> is the \<open>ValueError\<close> that rejects the mapping.
\<close>

definition validate_type_config :: "FieldMapping \<Rightarrow> pyexn + FieldMapping" where
  "validate_type_config m =
     (case type_config_map (fm_type m) of
        None \<Rightarrow> Inr m
      | Some required_field \<Rightarrow>
          if attr_is_none m required_field \<and> fm_type m \<noteq> STATIC then
            (if fm_type m = DIRECT \<and> fm_source_column m = None
             then Inl (PyExn ''ValueError''
                        (''Transform type '' @ [CHR 0x27] @ transform_type_str (fm_type m)
                           @ [CHR 0x27] @ '' requires '' @ [CHR 0x27] @ attr_str required_field
                           @ [CHR 0x27]))
             else Inr m)
          else Inr m)"

text \<open>A mapping declares a type without that type's sub-config being present.\<close>

definition sub_config_absent :: "FieldMapping \<Rightarrow> bool" where
  "sub_config_absent m =
     (case type_config_map (fm_type m) of
        None \<Rightarrow> False
      | Some required_field \<Rightarrow> attr_is_none m required_field)"

text \<open>The mapping with every optional attribute left at its default.\<close>

definition bare_mapping :: "TransformType \<Rightarrow> FieldMapping" where
  "bare_mapping t =
     \<lparr> fm_type = t, fm_value = PNone, fm_source_column = None, fm_transform = None,
       fm_lookup = None, fm_date = None, fm_phone = None, fm_formula = None,
       fm_currency = None, fm_tax = None, fm_clean = None, fm_conditional = None \<rparr>"

section \<open>Strings\<close>

text \<open>
  Python's \<open>str.isspace\<close> on the characters below U+0100, \<open>str.strip()\<close>,
  \<open>str.split(sep)\<close> for a one-character separator, and \<open>str.startswith\<close>.
\<close>

definition py_isspace :: "char \<Rightarrow> bool" where
  "py_isspace c =
     (let n = of_char c :: nat
      in (9 \<le> n \<and> n \<le> 13) \<or> (28 \<le> n \<and> n \<le> 32) \<or> n = 133 \<or> n = 160)"

definition py_strip :: "string \<Rightarrow> string" where
  "py_strip s = rev (dropWhile py_isspace (rev (dropWhile py_isspace s)))"

fun split_on :: "char \<Rightarrow> string \<Rightarrow> string list" where
  "split_on sep [] = [[]]"
| "split_on sep (c # cs) =
     (if c = sep then [] # split_on sep cs
      else (case split_on sep cs of
              [] \<Rightarrow> [[c]]
            | p # ps \<Rightarrow> (c # p) # ps))"

fun startswith :: "string \<Rightarrow> string \<Rightarrow> bool" where
  "startswith s [] = True"
| "startswith [] (p # ps) = False"
| "startswith (c # cs) (p # ps) = (c = p \<and> startswith cs ps)"

text \<open>
  \<open>repr\<close> of a string, on the characters below U+0100: single quotes around it, or
  double quotes when it holds a single quote and no double quote; a backslash before the
  quote in use and before a backslash; \<open>\t\<close>, \<open>\n\<close>, \<open>\r\<close>; \<open>\xhh\<close> for every other
  character that is not printable.
\<close>

definition hex_digit :: "nat \<Rightarrow> char" where
  "hex_digit n = (if n < 10 then char_of (48 + n) else char_of (87 + n))"

definition repr_char :: "char \<Rightarrow> char \<Rightarrow> string" where
  "repr_char q ch =
     (let n = of_char ch :: nat
      in if ch = q \<or> ch = CHR 0x5C then [CHR 0x5C, ch]
         else if n = 9 then [CHR 0x5C, CHR ''t'']
         else if n = 10 then [CHR 0x5C, CHR ''n'']
         else if n = 13 then [CHR 0x5C, CHR ''r'']
         else if n < 32 \<or> n = 127 \<or> (128 \<le> n \<and> n \<le> 160) \<or> n = 173
         then [CHR 0x5C, CHR ''x'', hex_digit (n div 16), hex_digit (n mod 16)]
         else [ch])"

definition repr_str :: "string \<Rightarrow> string" where
  "repr_str s =
     (let q = (if CHR 0x27 \<in> set s \<and> CHR 0x22 \<notin> set s then CHR 0x22 else CHR 0x27)
      in [q] @ concat (map (repr_char q) s) @ [q])"

text \<open>\<open>repr\<close> of a list of strings, as an f-string prints the list.\<close>

fun join_with :: "string \<Rightarrow> string list \<Rightarrow> string" where
  "join_with sep [] = []"
| "join_with sep [x] = x"
| "join_with sep (x # y # ys) = x @ sep @ join_with sep (y # ys)"

definition repr_str_list :: "string list \<Rightarrow> string" where
  "repr_str_list xs = ''['' @ join_with '', '' (map repr_str xs) @ '']''"

section \<open>Tables (pandas DataFrame and Series)\<close>

text \<open>
  A Series (one row of a table, as \<open>iterrows\<close> hands it out) is the list of its labelled
  values. A DataFrame is its ordered column labels and its rows, each row being its index
  label and its Series. Column labels are taken to be unique, as the readers produce
  them. Cells hold the Python values as they are, without pandas' dtype coercion.
\<close>

datatype label = LInt int | LOther string

type_synonym series = "(string \<times> pyval) list"

text \<open>Series: \<open>c in row.index\<close>, \<open>row[c]\<close> and \<open>row[c] = v\<close>.\<close>

definition in_index :: "series \<Rightarrow> string \<Rightarrow> bool" where
  "in_index row c = (c \<in> fst ` set row)"

definition series_get :: "series \<Rightarrow> string \<Rightarrow> pyval" where
  "series_get row c = (case map_of row c of Some v \<Rightarrow> v | None \<Rightarrow> PNone)"

fun series_set :: "series \<Rightarrow> string \<Rightarrow> pyval \<Rightarrow> series" where
  "series_set [] c v = [(c, v)]"
| "series_set ((k, x) # row) c v = (if k = c then (c, v) # row else (k, x) # series_set row c v)"

record dataframe =
  columns :: "string list"
  rows :: "(label \<times> series) list"

definition len_df :: "dataframe \<Rightarrow> nat" where
  "len_df df = length (rows df)"

definition iterrows :: "dataframe \<Rightarrow> (label \<times> series) list" where
  "iterrows df = rows df"

text \<open>\<open>df[c]\<close>: the values of a column.\<close>

definition column_values :: "dataframe \<Rightarrow> string \<Rightarrow> pyval list" where
  "column_values df c = map (\<lambda>(idx, row). series_get row c) (rows df)"

text \<open>
  \<open>df[c] = vs\<close>, one value per row: an existing column is overwritten in place, a new
  one is appended as the last column.
\<close>

definition set_column :: "dataframe \<Rightarrow> string \<Rightarrow> pyval list \<Rightarrow> dataframe" where
  "set_column df c vs =
     \<lparr> columns = (if c \<in> set (columns df) then columns df else columns df @ [c]),
       rows = map (\<lambda>((idx, row), v). (idx, series_set row c v)) (zip (rows df) vs) \<rparr>"

text \<open>\<open>df[c] = None\<close>: the scalar is broadcast to every row.\<close>

definition set_column_scalar :: "dataframe \<Rightarrow> string \<Rightarrow> pyval \<Rightarrow> dataframe" where
  "set_column_scalar df c v = set_column df c (replicate (len_df df) v)"

text \<open>\<open>df[cs]\<close> for a list of labels: \<open>KeyError\<close> when one of them is no column.\<close>

definition select_columns :: "dataframe \<Rightarrow> string list \<Rightarrow> pyexn + dataframe" where
  "select_columns df cs =
     (if list_all (\<lambda>c. c \<in> set (columns df)) cs
      then Inr \<lparr> columns = cs,
                 rows = map (\<lambda>(idx, row). (idx, map (\<lambda>c. (c, series_get row c)) cs)) (rows df) \<rparr>
      else Inl (PyExn ''KeyError'' ''not in index''))"

text \<open>\<open>df[mask]\<close> for a boolean mask: the rows whose mask entry is true, in order.\<close>

definition boolean_index :: "dataframe \<Rightarrow> bool list \<Rightarrow> pyexn + dataframe" where
  "boolean_index df msk =
     (if length msk = length (rows df)
      then Inr (df\<lparr>rows := map fst (filter snd (zip (rows df) msk))\<rparr>)
      else Inl (PyExn ''ValueError'' ''Item wrong length''))"

text \<open>\<open>df.loc[labels]\<close>: for each label in turn, the rows that carry it.\<close>

definition loc_rows :: "dataframe \<Rightarrow> label list \<Rightarrow> dataframe" where
  "loc_rows df labels =
     df\<lparr>rows := concat (map (\<lambda>l. filter (\<lambda>r. fst r = l) (rows df)) labels)\<rparr>"

text \<open>
  The objects a run works on live in a heap of DataFrames: an address is a position in
  the list, \<open>df.copy()\<close> and every freshly built table are appended, an assignment to a
  column overwrites the table at its address.
\<close>

type_synonym heap = "dataframe list"

definition alloc :: "heap \<Rightarrow> dataframe \<Rightarrow> nat \<times> heap" where
  "alloc h df = (length h, h @ [df])"

section \<open>Processing context and results (core/processing\_context.py)\<close>

record RowError =
  row_index :: int
  err_column :: "string option"
  message :: string
  severity :: ErrorSeverity
  original_value :: pyval

record StepResult =
  sr_step_name :: string
  sr_input_rows :: nat
  sr_output_rows :: nat
  filtered_rows :: int

record ProcessingResult =
  r_brand_name :: string
  r_source_file :: "string option"
  success :: bool
  input_rows :: nat
  output_rows :: nat
  r_step_results :: "StepResult list"
  r_errors :: "RowError list"
  r_warnings :: "RowError list"
  r_quarantined_rows :: "int set"

text \<open>
  The context of one run. The global configuration object is read only through the
  attribute walk of \<open>resolve_reference\<close>, so it is kept as that walk: the value reached
  from the object along a list of attribute names, or the \<open>ValueError\<close> raised on the
  way. Timestamps and durations are left out.
\<close>

record ProcessingContext =
  global_config :: "string list \<Rightarrow> pyexn + pyval"
  brand_name :: string
  source_file :: "string option"
  current_step :: string
  current_row :: int
  errors :: "RowError list"
  warnings :: "RowError list"
  quarantined_rows :: "int set"
  step_results :: "StepResult list"
  ref_cache :: "(string \<times> pyval) list"

definition new_context ::
  "(string list \<Rightarrow> pyexn + pyval) \<Rightarrow> string \<Rightarrow> string option \<Rightarrow> ProcessingContext" where
  "new_context gc brand src =
     \<lparr> global_config = gc, brand_name = brand, source_file = src, current_step = [],
       current_row = 0, errors = [], warnings = [], quarantined_rows = {},
       step_results = [], ref_cache = [] \<rparr>"

definition add_error ::
  "string \<Rightarrow> string option \<Rightarrow> pyval \<Rightarrow> int option \<Rightarrow> ErrorSeverity \<Rightarrow>
   ProcessingContext \<Rightarrow> ProcessingContext" where
  "add_error msg col orig ridx sev c =
     (let error = \<lparr> row_index = (case ridx of Some i \<Rightarrow> i | None \<Rightarrow> current_row c),
                     err_column = col, message = msg, severity = sev, original_value = orig \<rparr>
      in if sev = ERROR \<or> sev = CRITICAL
         then c\<lparr>errors := errors c @ [error]\<rparr>
         else c\<lparr>warnings := warnings c @ [error]\<rparr>)"

definition add_warning ::
  "string \<Rightarrow> string option \<Rightarrow> pyval \<Rightarrow> int option \<Rightarrow> ProcessingContext \<Rightarrow> ProcessingContext" where
  "add_warning msg col orig ridx c = add_error msg col orig ridx WARNING c"

definition quarantine_row :: "int \<Rightarrow> string \<Rightarrow> ProcessingContext \<Rightarrow> ProcessingContext" where
  "quarantine_row ridx reason c =
     add_error (''Row quarantined: '' @ reason) None PNone (Some ridx) WARNING
       (c\<lparr>quarantined_rows := insert ridx (quarantined_rows c)\<rparr>)"

definition add_step_result :: "StepResult \<Rightarrow> ProcessingContext \<Rightarrow> ProcessingContext" where
  "add_step_result r c = c\<lparr>step_results := step_results c @ [r]\<rparr>"

fun dict_set :: "('k \<times> 'v) list \<Rightarrow> 'k \<Rightarrow> 'v \<Rightarrow> ('k \<times> 'v) list" where
  "dict_set [] k v = [(k, v)]"
| "dict_set ((k', x) # d) k v = (if k' = k then (k, v) # d else (k', x) # dict_set d k v)"

definition resolve_reference ::
  "string \<Rightarrow> ProcessingContext \<Rightarrow> (pyexn + pyval) \<times> ProcessingContext" where
  "resolve_reference ref c =
     (case map_of (ref_cache c) ref of
        Some v \<Rightarrow> (Inr v, c)
      | None \<Rightarrow>
          if \<not> startswith ref ''$ref:'' then (Inr (PStr ref), c)
          else (case split_on CHR ''.'' (drop 5 ref) of
                  [] \<Rightarrow> (Inl (PyExn ''IndexError'' ''list index out of range''), c)
                | p # parts \<Rightarrow>
                    if p = ''global'' then
                      (case global_config c parts of
                         Inl e \<Rightarrow> (Inl e, c)
                       | Inr obj \<Rightarrow> (Inr obj, c\<lparr>ref_cache := dict_set (ref_cache c) ref obj\<rparr>))
                    else (Inl (PyExn ''ValueError'' (''Unknown reference type: '' @ ref)), c)))"

definition get_result :: "nat \<Rightarrow> nat \<Rightarrow> bool \<Rightarrow> ProcessingContext \<Rightarrow> ProcessingResult" where
  "get_result n_in n_out ok c =
     \<lparr> r_brand_name = brand_name c, r_source_file = source_file c,
       success = (ok \<and> length (errors c) = 0),
       input_rows = n_in, output_rows = n_out,
       r_step_results = step_results c, r_errors = errors c, r_warnings = warnings c,
       r_quarantined_rows = quarantined_rows c \<rparr>"

text \<open>\<open>resolve_ref\<close> of the step and transformer base classes.\<close>

definition resolve_ref :: "pyval \<Rightarrow> ProcessingContext \<Rightarrow> (pyexn + pyval) \<times> ProcessingContext" where
  "resolve_ref v c =
     (case v of
        PStr s \<Rightarrow> if startswith s ''$ref:'' then resolve_reference s c else (Inr v, c)
      | _ \<Rightarrow> (Inr v, c))"

section \<open>Library primitives\<close>

text \<open>
  What the steps ask of pandas and the Python runtime is a parameter of the model: every
  result below holds for any behaviour of these primitives.
  \<^item> \<open>py_str\<close>, \<open>py_upper\<close>, \<open>py_float\<close>: \<open>str(x)\<close>, \<open>s.upper()\<close>, \<open>float(x)\<close>;
  \<^item> \<open>to_numeric\<close>, \<open>isna\<close>: \<open>pd.to_numeric(x, errors="coerce")\<close> and \<open>pd.isna(x)\<close> on one value;
  \<^item> \<open>dtype_is_object\<close>: whether a column's dtype is \<open>object\<close>;
  \<^item> \<open>series_eq\<close>, \<open>series_ne\<close>, \<open>isin\<close>: \<open>col == v\<close>, \<open>col != v\<close>, \<open>col.isin(v)\<close>;
  \<^item> \<open>re_compile\<close>: a compiled pattern as its search test, or the error of compiling it;
  \<^item> \<open>num_gt\<close>, \<open>num_lt\<close>, \<open>num_ge\<close>, \<open>num_le\<close>: a numeric cell compared with a float;
  \<^item> \<open>groupby_agg\<close>: \<open>df.groupby(key, as_index=False).agg(**spec)\<close>;
  \<^item> \<open>float_str\<close>: \<open>str(float(x))\<close>; \<open>py_eval\<close>: the built-in \<open>eval\<close> with empty builtins.
\<close>

datatype aggfunc = AggName string | AggFirstNonNull | AggConcat string

record pandas_lib =
  py_str :: "pyval \<Rightarrow> string"
  py_upper :: "string \<Rightarrow> string"
  py_lower :: "string \<Rightarrow> string"
  py_float :: "pyval \<Rightarrow> pyexn + pyval"
  to_numeric :: "pyval \<Rightarrow> pyval"
  isna :: "pyval \<Rightarrow> bool"
  dtype_is_object :: "pyval list \<Rightarrow> bool"
  series_eq :: "pyval list \<Rightarrow> pyval \<Rightarrow> pyexn + bool list"
  series_ne :: "pyval list \<Rightarrow> pyval \<Rightarrow> pyexn + bool list"
  isin :: "pyval list \<Rightarrow> pyval \<Rightarrow> pyexn + bool list"
  re_compile :: "string \<Rightarrow> pyexn + (string \<Rightarrow> bool)"
  num_gt :: "pyval \<Rightarrow> pyval \<Rightarrow> bool"
  num_lt :: "pyval \<Rightarrow> pyval \<Rightarrow> bool"
  num_ge :: "pyval \<Rightarrow> pyval \<Rightarrow> bool"
  num_le :: "pyval \<Rightarrow> pyval \<Rightarrow> bool"
  groupby_agg :: "dataframe \<Rightarrow> string \<Rightarrow> (string \<times> string \<times> aggfunc) list \<Rightarrow> pyexn + dataframe"
  float_str :: "pyval \<Rightarrow> pyexn + string"
  py_eval :: "string \<Rightarrow> pyexn + pyval"

section \<open>Filter step (steps/filter\_step.py)\<close>

text \<open>Masks are boolean Series over the table's index: \<open>~m\<close>, \<open>a & b\<close>, \<open>a | b\<close>.\<close>

definition mask_not :: "pyexn + bool list \<Rightarrow> pyexn + bool list" where
  "mask_not r = (case r of Inl e \<Rightarrow> Inl e | Inr m \<Rightarrow> Inr (map Not m))"

definition mask_and :: "bool list \<Rightarrow> bool list \<Rightarrow> bool list" where
  "mask_and a b = map (\<lambda>(x, y). x \<and> y) (zip a b)"

definition mask_or :: "bool list \<Rightarrow> bool list \<Rightarrow> bool list" where
  "mask_or a b = map (\<lambda>(x, y). x \<or> y) (zip a b)"

text \<open>The operand of \<open>in\<close> and \<open>not_in\<close>: a comma-separated string becomes a list.\<close>

definition listify :: "pyval \<Rightarrow> pyval" where
  "listify v =
     (case v of
        PStr s \<Rightarrow> PList (map (\<lambda>x. PStr (py_strip x)) (split_on CHR '','' s))
      | _ \<Rightarrow> v)"

definition numeric_compare ::
  "pandas_lib \<Rightarrow> (pyval \<Rightarrow> pyval \<Rightarrow> bool) \<Rightarrow> pyval list \<Rightarrow> pyval \<Rightarrow> pyexn + bool list" where
  "numeric_compare L cmp col_values v =
     (let nums = map (to_numeric L) col_values
      in case py_float L v of
           Inl e \<Rightarrow> Inl e
         | Inr f \<Rightarrow> Inr (map (\<lambda>x. cmp x f) nums))"

definition apply_operator ::
  "pandas_lib \<Rightarrow> pyval list \<Rightarrow> FilterOperator \<Rightarrow> pyval \<Rightarrow> pyexn + bool list" where
  "apply_operator L col_values op v =
     (case op of
        EQUALS \<Rightarrow> series_eq L col_values v
      | NOT_EQUALS \<Rightarrow> series_ne L col_values v
      | CONTAINS \<Rightarrow>
          (case re_compile L (py_str L v) of
             Inl e \<Rightarrow> Inl e
           | Inr search \<Rightarrow> Inr (map (\<lambda>x. search (py_str L x)) col_values))
      | NOT_CONTAINS \<Rightarrow>
          mask_not (case re_compile L (py_str L v) of
                      Inl e \<Rightarrow> Inl e
                    | Inr search \<Rightarrow> Inr (map (\<lambda>x. search (py_str L x)) col_values))
      | IN \<Rightarrow> isin L col_values (listify v)
      | NOT_IN \<Rightarrow> mask_not (isin L col_values (listify v))
      | GREATER_THAN \<Rightarrow> numeric_compare L (num_gt L) col_values v
      | LESS_THAN \<Rightarrow> numeric_compare L (num_lt L) col_values v
      | GREATER_EQUAL \<Rightarrow> numeric_compare L (num_ge L) col_values v
      | LESS_EQUAL \<Rightarrow> numeric_compare L (num_le L) col_values v
      | IS_NULL \<Rightarrow>
          (case series_eq L col_values (PStr []) of
             Inl e \<Rightarrow> Inl e
           | Inr blank \<Rightarrow>
               Inr (mask_or (mask_or (map (isna L) col_values) blank)
                            (map (\<lambda>x. py_strip (py_str L x) = []) col_values)))
      | IS_NOT_NULL \<Rightarrow>
          (case series_ne L col_values (PStr []) of
             Inl e \<Rightarrow> Inl e
           | Inr nonblank \<Rightarrow>
               Inr (mask_and (mask_and (map (\<lambda>x. \<not> isna L x) col_values) nonblank)
                             (map (\<lambda>x. py_strip (py_str L x) \<noteq> []) col_values)))
      | STARTS_WITH \<Rightarrow> Inr (map (\<lambda>x. startswith (py_str L x) (py_str L v)) col_values)
      | ENDS_WITH \<Rightarrow> Inr (map (\<lambda>x. startswith (rev (py_str L x)) (rev (py_str L v))) col_values))"

definition upper_operand :: "pandas_lib \<Rightarrow> pyval \<Rightarrow> pyval" where
  "upper_operand L v =
     (case v of
        PStr s \<Rightarrow> PStr (py_upper L s)
      | PList vs \<Rightarrow> PList (map (\<lambda>x. case x of PStr s \<Rightarrow> PStr (py_upper L s) | _ \<Rightarrow> x) vs)
      | _ \<Rightarrow> v)"

text \<open>
  \<open>_evaluate_condition\<close>: the mask of one condition, \<open>None\<close> when the condition is
  skipped, or the exception that resolving the operand or applying the operator raises.
\<close>

definition evaluate_condition ::
  "pandas_lib \<Rightarrow> dataframe \<Rightarrow> FilterCondition \<Rightarrow> ProcessingContext \<Rightarrow>
   (pyexn + bool list option) \<times> ProcessingContext" where
  "evaluate_condition L df cond c =
     (if column cond \<notin> set (columns df) then
        (if skip_if_column_missing cond
         then (Inr None,
               add_warning (''Filter column '' @ [CHR 0x27] @ column cond @ [CHR 0x27]
                              @ '' not found, skipping condition'') None PNone None c)
         else (Inr (Some (replicate (len_df df) True)),
               add_error (''Filter column '' @ [CHR 0x27] @ column cond @ [CHR 0x27]
                            @ '' not found'') None PNone None ERROR c))
      else
        (let col_values = column_values df (column cond)
         in case resolve_ref (cvalue cond) c of
              (Inl e, c') \<Rightarrow> (Inl e, c')
            | (Inr v, c') \<Rightarrow>
                (let fold_case = (\<not> case_sensitive cond \<and> dtype_is_object L col_values);
                     col_values' = (if fold_case
                                    then map (\<lambda>x. PStr (py_upper L (py_str L x))) col_values
                                    else col_values);
                     v' = (if fold_case then upper_operand L v else v)
                 in case apply_operator L col_values' (operator cond) v' of
                      Inl e \<Rightarrow> (Inl e, c')
                    | Inr m \<Rightarrow> (Inr (Some m), c'))))"

fun collect_masks ::
  "pandas_lib \<Rightarrow> dataframe \<Rightarrow> FilterCondition list \<Rightarrow> ProcessingContext \<Rightarrow>
   (pyexn + bool list list) \<times> ProcessingContext" where
  "collect_masks L df [] c = (Inr [], c)"
| "collect_masks L df (cond # conds) c =
     (case evaluate_condition L df cond c of
        (Inl e, c') \<Rightarrow> (Inl e, c')
      | (Inr m, c') \<Rightarrow>
          (case collect_masks L df conds c' of
             (Inl e, c'') \<Rightarrow> (Inl e, c'')
           | (Inr ms, c'') \<Rightarrow> (Inr ((case m of None \<Rightarrow> [] | Some x \<Rightarrow> [x]) @ ms), c'')))"

definition combine_masks :: "FilterMode \<Rightarrow> bool list \<Rightarrow> bool list list \<Rightarrow> bool list" where
  "combine_masks md m0 ms =
     (case md of
        all_of \<Rightarrow> foldl mask_and m0 ms
      | any_of \<Rightarrow> foldl mask_or m0 ms)"

text \<open>
  \<open>FilterStep.execute\<close> on the table at address \<open>df\<close>: the address of the result (the
  input itself when nothing is filtered, a fresh copy otherwise) or the exception raised.
\<close>

definition FilterStep_execute ::
  "pandas_lib \<Rightarrow> nat \<Rightarrow> FilterConfig \<Rightarrow> ProcessingContext \<Rightarrow> heap \<Rightarrow>
   (pyexn + nat) \<times> ProcessingContext \<times> heap" where
  "FilterStep_execute L df cfg c h =
     (if conditions cfg = [] then (Inr df, c, h)
      else
        (case collect_masks L (h ! df) (conditions cfg) c of
           (Inl e, c') \<Rightarrow> (Inl e, c', h)
         | (Inr masks, c') \<Rightarrow>
             (case masks of
                [] \<Rightarrow> (Inr df, c', h)
              | m0 # ms \<Rightarrow>
                  (case boolean_index (h ! df) (combine_masks (mode cfg) m0 ms) of
                     Inl e \<Rightarrow> (Inl e, c', h)
                   | Inr new \<Rightarrow> (let (a, h') = alloc h new in (Inr a, c', h'))))))"

section \<open>Aggregate step (steps/aggregate\_step.py)\<close>

fun get_agg_function :: "AggregationRule \<Rightarrow> aggfunc option" where
  "get_agg_function rule =
     (case agg_function rule of
        Agg_SUM \<Rightarrow> Some (AggName ''sum'')
      | Agg_MAX \<Rightarrow> Some (AggName ''max'')
      | Agg_MIN \<Rightarrow> Some (AggName ''min'')
      | Agg_MEAN \<Rightarrow> Some (AggName ''mean'')
      | Agg_FIRST \<Rightarrow> Some (AggName ''first'')
      | Agg_LAST \<Rightarrow> Some (AggName ''last'')
      | Agg_COUNT \<Rightarrow> Some (AggName ''count'')
      | Agg_FIRST_NON_NULL \<Rightarrow> Some AggFirstNonNull
      | Agg_CONCAT \<Rightarrow> Some (AggConcat (separator rule)))"

text \<open>
  The loop over the aggregation rules. A rule with \<open>coerce_numeric\<close> assigns the coerced
  column back to the table it was given: the table at address \<open>df\<close> is overwritten.
\<close>

fun build_agg_spec ::
  "pandas_lib \<Rightarrow> nat \<Rightarrow> (string \<times> AggregationRule) list \<Rightarrow> (string \<times> string \<times> aggfunc) list \<Rightarrow>
   ProcessingContext \<Rightarrow> heap \<Rightarrow> (string \<times> string \<times> aggfunc) list \<times> ProcessingContext \<times> heap" where
  "build_agg_spec L df [] agg_spec c h = (agg_spec, c, h)"
| "build_agg_spec L df ((output_name, rule) # rest) agg_spec c h =
     (if source rule \<notin> set (columns (h ! df)) then
        build_agg_spec L df rest agg_spec
          (add_warning (''Aggregation source column '' @ [CHR 0x27] @ source rule @ [CHR 0x27]
                          @ '' not found'') None PNone None c) h
      else
        (let h1 = (if agg_coerce_numeric rule
                   then h[df := set_column (h ! df) (source rule)
                                  (map (to_numeric L) (column_values (h ! df) (source rule)))]
                   else h)
         in case get_agg_function rule of
              None \<Rightarrow>
                build_agg_spec L df rest agg_spec
                  (add_warning ''Unknown aggregation function'' None PNone None c) h1
            | Some agg_func \<Rightarrow>
                build_agg_spec L df rest (dict_set agg_spec output_name (source rule, agg_func)) c h1))"

definition AggregateStep_execute ::
  "pandas_lib \<Rightarrow> nat \<Rightarrow> AggregateConfig \<Rightarrow> ProcessingContext \<Rightarrow> heap \<Rightarrow>
   (pyexn + nat) \<times> ProcessingContext \<times> heap" where
  "AggregateStep_execute L df cfg c h =
     (if group_by cfg \<notin> set (columns (h ! df)) then
        (Inr df,
         add_error (''Group by column '' @ [CHR 0x27] @ group_by cfg @ [CHR 0x27] @ '' not found'')
           None PNone None ERROR c,
         h)
      else
        (case build_agg_spec L df (aggregations cfg) [] c h of
           (agg_spec, c1, h1) \<Rightarrow>
             if agg_spec = [] then
               (Inr df, add_error ''No valid aggregations to perform'' None PNone None ERROR c1, h1)
             else
               (case groupby_agg L (h1 ! df) (group_by cfg) agg_spec of
                  Inl e \<Rightarrow>
                    (Inr df,
                     add_error (''Aggregation failed: '' @ exn_str e) None PNone None ERROR c1, h1)
                | Inr result \<Rightarrow> (let (a, h2) = alloc h1 result in (Inr a, c1, h2)))))"

section \<open>Validate step (steps/validate\_step.py)\<close>

text \<open>The step's config is a plain dict; an absent key is \<open>None\<close> here.\<close>

record ValidateConfig =
  required_fields :: "string list option"
  quarantine_invalid :: "bool option"
  validate_types :: "(string \<times> string) list option"

text \<open>\<open>idx if isinstance(idx, int) else 0\<close>.\<close>

fun label_int :: "label \<Rightarrow> int" where
  "label_int (LInt i) = i"
| "label_int (LOther s) = 0"

fun is_empty :: "pyval \<Rightarrow> bool" where
  "is_empty PNone = True"
| "is_empty PNaN = True"
| "is_empty (PStr s) = (py_strip s = [])"
| "is_empty v = False"

definition validate_type :: "pandas_lib \<Rightarrow> pyval \<Rightarrow> string \<Rightarrow> pyexn + bool" where
  "validate_type L v expected_type =
     (if is_empty v then Inr True
      else if expected_type = ''numeric'' then
        (case py_float L v of
           Inr f \<Rightarrow> Inr True
         | Inl (PyExn cls msg) \<Rightarrow>
             if cls = ''ValueError'' \<or> cls = ''TypeError'' then Inr False
             else Inl (PyExn cls msg))
      else if expected_type = ''string'' then
        Inr (case v of PStr s \<Rightarrow> True | _ \<Rightarrow> False)
      else if expected_type = ''date'' then
        Inr (case v of PStr s \<Rightarrow> CHR ''T'' \<in> set s \<or> CHR ''-'' \<in> set s | _ \<Rightarrow> True)
      else Inr True)"

text \<open>The loop over the required fields of one row: the row's validity flag and the ledger.\<close>

fun check_required ::
  "string list \<Rightarrow> series \<Rightarrow> int \<Rightarrow> bool \<Rightarrow> ProcessingContext \<Rightarrow> bool \<times> ProcessingContext" where
  "check_required [] row ridx is_valid c = (is_valid, c)"
| "check_required (field # more_fields) row ridx is_valid c =
     (if \<not> in_index row field then
        check_required more_fields row ridx False
          (add_error (''Required field '' @ [CHR 0x27] @ field @ [CHR 0x27] @ '' missing'')
             (Some field) PNone (Some ridx) ERROR c)
      else if is_empty (series_get row field) then
        check_required more_fields row ridx is_valid
          (add_warning (''Required field '' @ [CHR 0x27] @ field @ [CHR 0x27] @ '' is empty'')
             (Some field) (series_get row field) (Some ridx) c)
      else check_required more_fields row ridx is_valid c)"

fun check_types ::
  "pandas_lib \<Rightarrow> (string \<times> string) list \<Rightarrow> series \<Rightarrow> int \<Rightarrow> ProcessingContext \<Rightarrow>
   (pyexn + unit) \<times> ProcessingContext" where
  "check_types L [] row ridx c = (Inr (), c)"
| "check_types L ((field, expected_type) # rest) row ridx c =
     (if in_index row field then
        (case validate_type L (series_get row field) expected_type of
           Inl e \<Rightarrow> (Inl e, c)
         | Inr ok \<Rightarrow>
             if ok then check_types L rest row ridx c
             else check_types L rest row ridx
                    (add_warning (''Field '' @ [CHR 0x27] @ field @ [CHR 0x27]
                                    @ '' has invalid type (expected '' @ expected_type @ '')'')
                       (Some field) (series_get row field) (Some ridx) c))
      else check_types L rest row ridx c)"

text \<open>The loop over the rows: the labels of the rows to keep.\<close>

fun validate_rows ::
  "pandas_lib \<Rightarrow> string list \<Rightarrow> bool \<Rightarrow> (string \<times> string) list \<Rightarrow> (label \<times> series) list \<Rightarrow>
   ProcessingContext \<Rightarrow> (pyexn + label list) \<times> ProcessingContext" where
  "validate_rows L req quarantine types [] c = (Inr [], c)"
| "validate_rows L req quarantine types ((idx, row) # rest) c =
     (let ridx = label_int idx;
          (is_valid, c1) = check_required req row ridx True c
      in case check_types L types row ridx c1 of
           (Inl e, c2) \<Rightarrow> (Inl e, c2)
         | (Inr u, c2) \<Rightarrow>
             (let keep = (is_valid \<or> \<not> quarantine);
                  c3 = (if keep then c2 else quarantine_row ridx ''Failed validation'' c2)
              in case validate_rows L req quarantine types rest c3 of
                   (Inl e, c4) \<Rightarrow> (Inl e, c4)
                 | (Inr kept, c4) \<Rightarrow> (Inr ((if keep then [idx] else []) @ kept), c4)))"

definition ValidateStep_execute ::
  "pandas_lib \<Rightarrow> nat \<Rightarrow> ValidateConfig \<Rightarrow> ProcessingContext \<Rightarrow> heap \<Rightarrow>
   (pyexn + nat) \<times> ProcessingContext \<times> heap" where
  "ValidateStep_execute L df cfg c h =
     (let req = (case required_fields cfg of None \<Rightarrow> [] | Some fs \<Rightarrow> fs);
          quarantine = (case quarantine_invalid cfg of None \<Rightarrow> True | Some b \<Rightarrow> b);
          types = (case validate_types cfg of None \<Rightarrow> [] | Some ts \<Rightarrow> ts)
      in case validate_rows L req quarantine types (iterrows (h ! df)) c of
           (Inl e, c') \<Rightarrow> (Inl e, c', h)
         | (Inr rows_to_keep, c') \<Rightarrow>
             (let (a, h') = alloc h (loc_rows (h ! df) rows_to_keep) in (Inr a, c', h')))"

section \<open>Field transformers (transformers/)\<close>

text \<open>
  A transformer reads the row it is given and the context; it returns a value or raises.
\<close>

type_synonym transformer =
  "series \<Rightarrow> FieldMapping \<Rightarrow> int \<Rightarrow> ProcessingContext \<Rightarrow> (pyexn + pyval) \<times> ProcessingContext"

definition get_column_value :: "series \<Rightarrow> string \<Rightarrow> pyval \<Rightarrow> pyval" where
  "get_column_value row c dflt = (if in_index row c then series_get row c else dflt)"

definition StaticTransformer_transform :: transformer where
  "StaticTransformer_transform row m ridx c = (Inr (fm_value m), c)"

definition apply_transform :: "pandas_lib \<Rightarrow> pyval \<Rightarrow> DataTransform \<Rightarrow> pyval" where
  "apply_transform L v t =
     (case t of
        TO_STRING \<Rightarrow> PStr (py_str L v)
      | TO_NUMERIC \<Rightarrow> to_numeric L v
      | TO_UPPER \<Rightarrow> PStr (py_upper L (py_str L v))
      | TO_LOWER \<Rightarrow> PStr (py_lower L (py_str L v))
      | STRIP \<Rightarrow> PStr (py_strip (py_str L v)))"

definition DirectTransformer_transform :: "pandas_lib \<Rightarrow> transformer" where
  "DirectTransformer_transform L row m ridx c =
     (case fm_source_column m of
        None \<Rightarrow> (Inr PNone, c)
      | Some src \<Rightarrow>
          if src = [] then (Inr PNone, c)
          else
            (let v = get_column_value row src PNone
             in if v = PNone \<or> v = PNaN then (Inr PNone, c)
                else (case fm_transform m of
                        None \<Rightarrow> (Inr v, c)
                      | Some t \<Rightarrow> (Inr (apply_transform L v t), c))))"

subsection \<open>Formula transformer\<close>

text \<open>
  The three text operations of the formula transformer walk the text from left to right;
  the counter is the number of characters still covered by the last match.

  \<open>re.findall(r"\{([^}]+)\}", text)\<close>: the placeholder names.
\<close>

fun find_refs_from :: "nat \<Rightarrow> string \<Rightarrow> string list" where
  "find_refs_from k [] = []"
| "find_refs_from (Suc k) (ch # cs) = find_refs_from k cs"
| "find_refs_from 0 (ch # cs) =
     (if ch = CHR ''{'' then
        (let name = takeWhile (\<lambda>x. x \<noteq> CHR ''}'') cs;
             rest = dropWhile (\<lambda>x. x \<noteq> CHR ''}'') cs
         in if name \<noteq> [] \<and> rest \<noteq> []
            then name # find_refs_from (Suc (length name)) cs
            else find_refs_from 0 cs)
      else find_refs_from 0 cs)"

definition find_refs :: "string \<Rightarrow> string list" where
  "find_refs text = find_refs_from 0 text"

text \<open>\<open>text.replace(old, new)\<close> for a non-empty \<open>old\<close>.\<close>

fun str_replace_from :: "nat \<Rightarrow> string \<Rightarrow> string \<Rightarrow> string \<Rightarrow> string" where
  "str_replace_from k old new [] = []"
| "str_replace_from (Suc k) old new (ch # cs) = str_replace_from k old new cs"
| "str_replace_from 0 old new (ch # cs) =
     (if old \<noteq> [] \<and> startswith (ch # cs) old
      then new @ str_replace_from (length old - 1) old new cs
      else ch # str_replace_from 0 old new cs)"

definition str_replace :: "string \<Rightarrow> string \<Rightarrow> string \<Rightarrow> string" where
  "str_replace text old new = str_replace_from 0 old new text"

definition is_digit :: "char \<Rightarrow> bool" where
  "is_digit ch = (let n = of_char ch :: nat in 48 \<le> n \<and> n \<le> 57)"

text \<open>
  One match of \<open>COALESCE\(\{([^}]+)\},\s*(\d+(?:\.\d+)?)\)\<close> at the start of a text: the
  column name, the default, and the number of characters matched.
\<close>

definition match_coalesce :: "string \<Rightarrow> (string \<times> string \<times> nat) option" where
  "match_coalesce text =
     (if \<not> startswith text ''COALESCE({'' then None
      else
        (let s1 = drop 10 text;
             name = takeWhile (\<lambda>x. x \<noteq> CHR ''}'') s1;
             s2 = dropWhile (\<lambda>x. x \<noteq> CHR ''}'') s1
         in if name = [] \<or> \<not> startswith s2 ''},'' then None
            else
              (let s3 = dropWhile py_isspace (drop 2 s2);
                   whole = takeWhile is_digit s3;
                   s4 = dropWhile is_digit s3;
                   frac = (case s4 of
                             [] \<Rightarrow> []
                           | d # t \<Rightarrow> if d = CHR ''.'' \<and> takeWhile is_digit t \<noteq> []
                                      then d # takeWhile is_digit t else []);
                   s5 = drop (length frac) s4
               in if whole = [] then None
                  else (case s5 of
                          [] \<Rightarrow> None
                        | p # rest \<Rightarrow>
                            if p = CHR '')''
                            then Some (name, whole @ frac, length text - length rest)
                            else None))))"

text \<open>The replacement of one \<open>COALESCE\<close> match.\<close>

definition replace_coalesce ::
  "pandas_lib \<Rightarrow> series \<Rightarrow> bool \<Rightarrow> string \<Rightarrow> string \<Rightarrow> pyexn + string" where
  "replace_coalesce L row coerce col_name dflt =
     (let v = get_column_value row col_name PNone
      in if v = PNone \<or> v = PNaN then Inr dflt
         else if coerce then
           (let numeric = to_numeric L v
            in if isna L numeric then Inr dflt else float_str L numeric)
         else Inr (py_str L v))"

fun handle_coalesce_from ::
  "nat \<Rightarrow> pandas_lib \<Rightarrow> series \<Rightarrow> bool \<Rightarrow> string \<Rightarrow> pyexn + string" where
  "handle_coalesce_from k L row coerce [] = Inr []"
| "handle_coalesce_from (Suc k) L row coerce (ch # cs) = handle_coalesce_from k L row coerce cs"
| "handle_coalesce_from 0 L row coerce (ch # cs) =
     (case match_coalesce (ch # cs) of
        None \<Rightarrow>
          (case handle_coalesce_from 0 L row coerce cs of
             Inl e \<Rightarrow> Inl e
           | Inr t \<Rightarrow> Inr (ch # t))
      | Some (col_name, dflt, n) \<Rightarrow>
          (case replace_coalesce L row coerce col_name dflt of
             Inl e \<Rightarrow> Inl e
           | Inr r \<Rightarrow>
               (case handle_coalesce_from (n - 1) L row coerce cs of
                  Inl e \<Rightarrow> Inl e
                | Inr t \<Rightarrow> Inr (r @ t))))"

definition handle_coalesce :: "pandas_lib \<Rightarrow> string \<Rightarrow> series \<Rightarrow> bool \<Rightarrow> pyexn + string" where
  "handle_coalesce L expr row coerce = handle_coalesce_from 0 L row coerce expr"

text \<open>The loop that replaces each remaining placeholder by the text of its value.\<close>

fun substitute_refs ::
  "pandas_lib \<Rightarrow> series \<Rightarrow> bool \<Rightarrow> string list \<Rightarrow> string \<Rightarrow> pyexn + string" where
  "substitute_refs L row coerce [] eval_expr = Inr eval_expr"
| "substitute_refs L row coerce (col_name # refs) eval_expr =
     (let v = get_column_value row col_name (PInt 0);
          v' = (if coerce
                then (let n = to_numeric L v in if isna L n then PInt 0 else n)
                else v)
      in case float_str L v' of
           Inl e \<Rightarrow> Inl e
         | Inr txt \<Rightarrow>
             substitute_refs L row coerce refs
               (str_replace eval_expr (''{'' @ col_name @ ''}'') txt))"

text \<open>The text handed to \<open>eval\<close>: the expression after both substitutions.\<close>

definition formula_text :: "pandas_lib \<Rightarrow> FormulaConfig \<Rightarrow> series \<Rightarrow> pyexn + string" where
  "formula_text L fc row =
     (case handle_coalesce L (expression fc) row (coerce_numeric fc) of
        Inl e \<Rightarrow> Inl e
      | Inr eval_expr \<Rightarrow>
          substitute_refs L row (coerce_numeric fc) (find_refs eval_expr) eval_expr)"

definition FormulaTransformer_transform :: "pandas_lib \<Rightarrow> transformer" where
  "FormulaTransformer_transform L row m ridx c =
     (case fm_formula m of
        None \<Rightarrow> (Inr PNone, c)
      | Some fc \<Rightarrow>
          (case formula_text L fc row of
             Inl e \<Rightarrow> (Inl e, c)
           | Inr eval_expr \<Rightarrow>
               (case py_eval L eval_expr of
                  Inr result \<Rightarrow> (Inr result, c)
                | Inl e \<Rightarrow>
                    (Inr PNone,
                     add_warning (''Formula evaluation failed: '' @ exn_str e) None
                       (PStr (expression fc)) (Some ridx) c))))"

subsection \<open>Transformer factory\<close>

text \<open>
  The factory's registry maps a transform type to its transformer and can be extended
  at run time, so the transform step takes it as an argument. \<open>registry_of\<close> is the
  default registry on the three strategies modelled above.
\<close>

type_synonym registry = "TransformType \<Rightarrow> transformer option"

definition registry_of :: "pandas_lib \<Rightarrow> registry" where
  "registry_of L t =
     (case t of
        STATIC \<Rightarrow> Some StaticTransformer_transform
      | DIRECT \<Rightarrow> Some (DirectTransformer_transform L)
      | FORMULA \<Rightarrow> Some (FormulaTransformer_transform L)
      | _ \<Rightarrow> None)"

definition get_transformer :: "registry \<Rightarrow> TransformType \<Rightarrow> pyexn + transformer" where
  "get_transformer R t =
     (case R t of
        None \<Rightarrow> Inl (PyExn ''ValueError'' (''Unknown transform type: '' @ transform_type_str t))
      | Some tr \<Rightarrow> Inr tr)"

section \<open>Transform step (steps/transform\_step.py)\<close>

record TransformConfig =
  mappings :: "(string \<times> FieldMapping) list"

text \<open>
  The body of the loop over the mappings, for one field: the value appended to the
  field's result list, \<open>None\<close> with a WARNING when the transformer raised.
\<close>

definition eval_mapping ::
  "registry \<Rightarrow> series \<Rightarrow> string \<Rightarrow> FieldMapping \<Rightarrow> ProcessingContext \<Rightarrow> pyval \<times> ProcessingContext" where
  "eval_mapping R extended_row field_name m c =
     (case (case get_transformer R (fm_type m) of
              Inl e \<Rightarrow> (Inl e, c)
            | Inr tr \<Rightarrow> tr extended_row m (current_row c) c) of
        (Inr v, c') \<Rightarrow> (v, c')
      | (Inl e, c') \<Rightarrow>
          (PNone,
           add_warning (''Transform failed for '' @ field_name @ '': '' @ exn_str e)
             (Some field_name) PNone (Some (current_row c')) c'))"

text \<open>
  The loop over the mappings for one row: the computed values in mapping order, the
  extended row at the end, and the context.
\<close>

fun transform_fields ::
  "registry \<Rightarrow> (string \<times> FieldMapping) list \<Rightarrow> series \<Rightarrow> ProcessingContext \<Rightarrow>
   pyval list \<times> series \<times> ProcessingContext" where
  "transform_fields R [] extended_row c = ([], extended_row, c)"
| "transform_fields R ((field_name, m) # ms) extended_row c =
     (let (v, c1) = eval_mapping R extended_row field_name m c;
          (vs, ext, c2) = transform_fields R ms (series_set extended_row field_name v) c1
      in (v # vs, ext, c2))"

fun transform_rows ::
  "registry \<Rightarrow> (string \<times> FieldMapping) list \<Rightarrow> (label \<times> series) list \<Rightarrow> ProcessingContext \<Rightarrow>
   (label \<times> series) list \<times> ProcessingContext" where
  "transform_rows R ms [] c = ([], c)"
| "transform_rows R ms ((idx, row) # rest) c =
     (let c0 = c\<lparr>current_row := label_int idx\<rparr>;
          (vs, ext, c1) = transform_fields R ms row c0;
          (out, c2) = transform_rows R ms rest c1
      in ((idx, zip (map fst ms) vs) # out, c2))"

definition TransformStep_execute ::
  "registry \<Rightarrow> nat \<Rightarrow> TransformConfig \<Rightarrow> ProcessingContext \<Rightarrow> heap \<Rightarrow>
   (pyexn + nat) \<times> ProcessingContext \<times> heap" where
  "TransformStep_execute R df cfg c h =
     (if mappings cfg = [] then (Inr df, c, h)
      else
        (let (out, c') = transform_rows R (mappings cfg) (iterrows (h ! df)) c;
             (a, h') = alloc h \<lparr>columns = map fst (mappings cfg), rows = out\<rparr>
         in (Inr a, c', h')))"

section \<open>Pipeline engine (core/pipeline\_engine.py)\<close>

record InputSchema =
  required_columns :: "string list"
  optional_columns :: "string list"

datatype StepConfig =
    FilterCfg FilterConfig
  | AggregateCfg AggregateConfig
  | TransformCfg TransformConfig
  | DictCfg ValidateConfig

record PipelineStep =
  step :: string
  config :: StepConfig

record BrandConfig =
  brand :: string
  input_schema :: InputSchema
  pipeline :: "PipelineStep list"
  output_columns :: "string list"

text \<open>\<open>_validate_schema\<close>: the two loops over the required and the optional columns.\<close>

fun check_required_columns ::
  "dataframe \<Rightarrow> string list \<Rightarrow> ProcessingContext \<Rightarrow> string list \<times> ProcessingContext" where
  "check_required_columns df [] c = ([], c)"
| "check_required_columns df (col # cols) c =
     (if col \<notin> set (columns df) then
        (let error_msg = ''Missing required column: '' @ col;
             (errs, c') = check_required_columns df cols
                            (add_error error_msg None PNone None CRITICAL c)
         in (error_msg # errs, c'))
      else check_required_columns df cols c)"

fun check_optional_columns ::
  "dataframe \<Rightarrow> string list \<Rightarrow> ProcessingContext \<Rightarrow> ProcessingContext" where
  "check_optional_columns df [] c = c"
| "check_optional_columns df (col # cols) c =
     (if col \<notin> set (columns df)
      then check_optional_columns df cols
             (add_warning (''Optional column not found: '' @ col) None PNone None c)
      else check_optional_columns df cols c)"

definition validate_schema ::
  "dataframe \<Rightarrow> BrandConfig \<Rightarrow> ProcessingContext \<Rightarrow> string list \<times> ProcessingContext" where
  "validate_schema df bc c =
     (let (errs, c1) = check_required_columns df (required_columns (input_schema bc)) c
      in (errs, check_optional_columns df (optional_columns (input_schema bc)) c1))"

text \<open>
  \<open>_order_output_columns\<close> on the table at address \<open>df\<close>: the missing columns are added
  to that table in place, the selection is a fresh table.
\<close>

definition order_output_columns ::
  "nat \<Rightarrow> BrandConfig \<Rightarrow> ProcessingContext \<Rightarrow> heap \<Rightarrow> nat \<times> ProcessingContext \<times> heap" where
  "order_output_columns df bc c h =
     (let missing = filter (\<lambda>col. col \<notin> set (columns (h ! df))) (output_columns bc);
          c1 = (if missing \<noteq> []
                then add_error (''Missing output columns: '' @ repr_str_list missing)
                       None PNone None ERROR c
                else c);
          h1 = (if missing \<noteq> []
                then h[df := foldl (\<lambda>d col. set_column_scalar d col PNone) (h ! df) missing]
                else h)
      in case select_columns (h1 ! df) (output_columns bc) of
           Inr ordered \<Rightarrow> (let (a, h2) = alloc h1 ordered in (a, c1, h2))
         | Inl e \<Rightarrow>
             (df,
              add_error (''Failed to order output columns: '' @ exn_str e) None PNone None ERROR c1,
              h1))"

text \<open>
  The step executors registered by default; \<open>None\<close> when the step name has no executor.
  An executor handed a config of another step's type fails on its first attribute access.
\<close>

definition execute_step ::
  "pandas_lib \<Rightarrow> registry \<Rightarrow> string \<Rightarrow> StepConfig \<Rightarrow> nat \<Rightarrow> ProcessingContext \<Rightarrow> heap \<Rightarrow>
   ((pyexn + nat) \<times> ProcessingContext \<times> heap) option" where
  "execute_step L R step_name cfg df c h =
     (let wrong = (Inl (PyExn ''AttributeError'' ''object has no such attribute''), c, h)
      in if step_name = ''filter'' then
           Some (case cfg of FilterCfg fc \<Rightarrow> FilterStep_execute L df fc c h | _ \<Rightarrow> wrong)
         else if step_name = ''aggregate'' then
           Some (case cfg of AggregateCfg ac \<Rightarrow> AggregateStep_execute L df ac c h | _ \<Rightarrow> wrong)
         else if step_name = ''transform'' then
           Some (case cfg of TransformCfg tc \<Rightarrow> TransformStep_execute R df tc c h | _ \<Rightarrow> wrong)
         else if step_name = ''validate'' then
           Some (case cfg of DictCfg vc \<Rightarrow> ValidateStep_execute L df vc c h | _ \<Rightarrow> wrong)
         else None)"

text \<open>
  The return statements of \<open>process\<close>, in source order: the schema abort, the unknown
  step, the failed step, the step without output rows, and the normal completion.
\<close>

datatype exit_point = SchemaAbort | UnknownStep | StepFailed | NoOutputRows | Completed

text \<open>
  The loop over the pipeline steps: \<open>Inl\<close> is an early return of \<open>process\<close> with its
  result, \<open>Inr\<close> the address of the table after the last step.
\<close>

fun run_steps ::
  "pandas_lib \<Rightarrow> registry \<Rightarrow> nat \<Rightarrow> PipelineStep list \<Rightarrow> nat \<Rightarrow> ProcessingContext \<Rightarrow> heap \<Rightarrow>
   (exit_point \<times> ProcessingResult + nat) \<times> ProcessingContext \<times> heap" where
  "run_steps L R n_in [] current_df c h = (Inr current_df, c, h)"
| "run_steps L R n_in (step_config # rest) current_df c h =
     (let step_name = step step_config;
          c0 = c\<lparr>current_step := step_name\<rparr>
      in case execute_step L R step_name (config step_config) current_df c0 h of
           None \<Rightarrow>
             (let c1 = add_error (''Unknown step type: '' @ step_name) None PNone None CRITICAL c0
              in (Inl (UnknownStep, get_result n_in 0 False c1), c1, h))
         | Some (Inl e, c1, h1) \<Rightarrow>
             (let c2 = add_error (''Step '' @ [CHR 0x27] @ step_name @ [CHR 0x27] @ '' failed: ''
                                    @ exn_str e) None PNone None CRITICAL c1
              in (Inl (StepFailed, get_result n_in 0 False c2), c2, h1))
         | Some (Inr result_df, c1, h1) \<Rightarrow>
             (let step_result =
                    \<lparr> sr_step_name = step_name,
                      sr_input_rows = len_df (h1 ! current_df),
                      sr_output_rows = len_df (h1 ! result_df),
                      filtered_rows = int (len_df (h1 ! current_df)) - int (len_df (h1 ! result_df)) \<rparr>;
                  c2 = add_step_result step_result c1
              in if len_df (h1 ! result_df) = 0 then
                   (let c3 = add_warning (''Step '' @ [CHR 0x27] @ step_name @ [CHR 0x27]
                                            @ '' produced no output rows'') None PNone None c2
                    in (Inl (NoOutputRows, get_result n_in 0 True c3), c3, h1))
                 else run_steps L R n_in rest result_df c2 h1))"

text \<open>
  \<open>PipelineEngine.process\<close> on the table at address \<open>df\<close> of the heap \<open>h\<close>, called
  without a progress callback: the return statement taken, the address of the output
  table (or \<open>None\<close>), the result, and the heap after the call.
\<close>

definition process ::
  "pandas_lib \<Rightarrow> registry \<Rightarrow> (string list \<Rightarrow> pyexn + pyval) \<Rightarrow> nat \<Rightarrow> BrandConfig \<Rightarrow>
   string option \<Rightarrow> heap \<Rightarrow> exit_point \<times> nat option \<times> ProcessingResult \<times> heap" where
  "process L R gc df bc src h =
     (let n_in = len_df (h ! df);
          c0 = new_context gc (brand bc) src;
          (schema_errors, c1) = validate_schema (h ! df) bc c0
      in if schema_errors \<noteq> [] then
           (SchemaAbort, None, get_result n_in 0 False c1, h)
         else
           (let (current_df, h1) = alloc h (h ! df)
            in case run_steps L R n_in (pipeline bc) current_df c1 h1 of
                 (Inl (ex, res), c2, h2) \<Rightarrow> (ex, None, res, h2)
               | (Inr last_df, c2, h2) \<Rightarrow>
                   (let (output_df, c3, h3) = order_output_columns last_df bc c2 h2
                    in (Completed, Some output_df,
                        get_result n_in (len_df (h3 ! output_df)) True c3, h3))))"

section \<open>A concrete interpretation of the library primitives\<close>

text \<open>
  For the examples: integer and string cells only. \<open>str\<close> prints integers in decimal,
  \<open>upper\<close> and \<open>lower\<close> act on ASCII letters, \<open>to_numeric\<close> reads integers and strings of
  decimal digits, a pattern is searched as a plain substring, \<open>groupby\<close> is not provided,
  and \<open>eval\<close> returns the text it is handed, so that an example shows what is evaluated.
\<close>

fun nat_str :: "nat \<Rightarrow> string" where
  "nat_str n = (if n < 10 then [char_of (48 + n)] else nat_str (n div 10) @ [char_of (48 + n mod 10)])"

declare nat_str.simps [simp del]

definition int_str :: "int \<Rightarrow> string" where
  "int_str i = (if i < 0 then ''-'' @ nat_str (nat (- i)) else nat_str (nat i))"

definition ascii_upper :: "char \<Rightarrow> char" where
  "ascii_upper ch = (let n = of_char ch :: nat in if 97 \<le> n \<and> n \<le> 122 then char_of (n - 32) else ch)"

definition ascii_lower :: "char \<Rightarrow> char" where
  "ascii_lower ch = (let n = of_char ch :: nat in if 65 \<le> n \<and> n \<le> 90 then char_of (n + 32) else ch)"

definition digits_value :: "string \<Rightarrow> int" where
  "digits_value s = foldl (\<lambda>acc ch. 10 * acc + (int (of_char ch) - 48)) 0 s"

fun demo_str :: "pyval \<Rightarrow> string" where
  "demo_str (PStr s) = s"
| "demo_str (PInt i) = int_str i"
| "demo_str PNone = ''None''"
| "demo_str PNaN = ''nan''"
| "demo_str (PBool b) = (if b then ''True'' else ''False'')"
| "demo_str v = []"

fun demo_to_numeric :: "pyval \<Rightarrow> pyval" where
  "demo_to_numeric (PInt i) = PInt i"
| "demo_to_numeric (PStr s) = (if s \<noteq> [] \<and> list_all is_digit s then PInt (digits_value s) else PNaN)"
| "demo_to_numeric v = PNaN"

fun demo_float :: "pyval \<Rightarrow> pyexn + pyval" where
  "demo_float (PInt i) = Inr (PInt i)"
| "demo_float (PStr s) =
     (if s \<noteq> [] \<and> list_all is_digit s then Inr (PInt (digits_value s))
      else Inl (PyExn ''ValueError'' ''could not convert string to float''))"
| "demo_float v = Inl (PyExn ''TypeError'' ''float() argument must be a string or a real number'')"

fun demo_float_str :: "pyval \<Rightarrow> pyexn + string" where
  "demo_float_str (PInt i) = Inr (int_str i @ ''.0'')"
| "demo_float_str v = Inl (PyExn ''TypeError'' ''float() argument must be a string or a real number'')"

fun demo_isin :: "pyval list \<Rightarrow> pyval \<Rightarrow> pyexn + bool list" where
  "demo_isin col (PList vs) = Inr (map (\<lambda>x. x \<in> set vs) col)"
| "demo_isin col v = Inl (PyExn ''TypeError'' ''only list-like objects are allowed'')"

fun demo_cmp :: "(int \<Rightarrow> int \<Rightarrow> bool) \<Rightarrow> pyval \<Rightarrow> pyval \<Rightarrow> bool" where
  "demo_cmp r (PInt a) (PInt b) = r a b"
| "demo_cmp r x y = False"

definition demo_lib :: pandas_lib where
  "demo_lib =
     \<lparr> py_str = demo_str,
       py_upper = map ascii_upper,
       py_lower = map ascii_lower,
       py_float = demo_float,
       to_numeric = demo_to_numeric,
       isna = (\<lambda>v. v = PNone \<or> v = PNaN),
       dtype_is_object = list_ex (\<lambda>v. case v of PStr s \<Rightarrow> True | PNone \<Rightarrow> True | _ \<Rightarrow> False),
       series_eq = (\<lambda>col v. Inr (map (\<lambda>x. x = v) col)),
       series_ne = (\<lambda>col v. Inr (map (\<lambda>x. x \<noteq> v) col)),
       isin = demo_isin,
       re_compile = (\<lambda>p. Inr (\<lambda>s. list_ex (\<lambda>t. startswith t p) (suffixes s))),
       num_gt = demo_cmp (\<lambda>a b. a > b),
       num_lt = demo_cmp (\<lambda>a b. a < b),
       num_ge = demo_cmp (\<lambda>a b. a \<ge> b),
       num_le = demo_cmp (\<lambda>a b. a \<le> b),
       groupby_agg = (\<lambda>df key spec. Inl (PyExn ''NotImplementedError'' ''groupby'')),
       float_str = demo_float_str,
       py_eval = (\<lambda>text. Inr (PStr text)) \<rparr>"

text \<open>A global configuration with the single attribute \<open>supported_countries\<close>.\<close>

definition demo_global :: "string list \<Rightarrow> pyexn + pyval" where
  "demo_global path =
     (if path = [''supported_countries'']
      then Inr (PList [PStr ''United Arab Emirates'', PStr ''Saudi Arabia'', PStr ''Kuwait''])
      else Inl (PyExn ''ValueError'' ''Cannot resolve reference''))"

section \<open>Ledger entries and example data\<close>

text \<open>The entries that the validate step records for a required field.\<close>

definition missing_field_error :: "int \<Rightarrow> string \<Rightarrow> RowError" where
  "missing_field_error ridx field =
     \<lparr> row_index = ridx, err_column = Some field,
       message = ''Required field '' @ [CHR 0x27] @ field @ [CHR 0x27] @ '' missing'',
       severity = ERROR, original_value = PNone \<rparr>"

definition empty_field_warning :: "series \<Rightarrow> int \<Rightarrow> string \<Rightarrow> RowError" where
  "empty_field_warning row ridx field =
     \<lparr> row_index = ridx, err_column = Some field,
       message = ''Required field '' @ [CHR 0x27] @ field @ [CHR 0x27] @ '' is empty'',
       severity = WARNING, original_value = series_get row field \<rparr>"

text \<open>A table of two orders, and the context of a fresh run.\<close>

definition orders :: dataframe where
  "orders =
     \<lparr> columns = [''status'', ''amount''],
       rows = [(LInt 0, [(''status'', PStr ''paid''), (''amount'', PInt 10)]),
               (LInt 1, [(''status'', PStr ''open''), (''amount'', PInt 20)])] \<rparr>"

definition ctx0 :: ProcessingContext where
  "ctx0 = new_context demo_global ''Acme'' None"

text \<open>The three components of what a step leaves behind.\<close>

definition returned :: "'a \<times> ProcessingContext \<times> heap \<Rightarrow> 'a" where
  "returned r = fst r"

definition context_after :: "'a \<times> ProcessingContext \<times> heap \<Rightarrow> ProcessingContext" where
  "context_after r = fst (snd r)"

definition heap_after :: "'a \<times> ProcessingContext \<times> heap \<Rightarrow> heap" where
  "heap_after r = snd (snd r)"

text \<open>A filter that keeps the paid orders, case-insensitively.\<close>

definition paid_only :: FilterConfig where
  "paid_only =
     \<lparr> mode = all_of,
       conditions = [\<lparr> column = ''status'', operator = EQUALS, cvalue = PStr ''PAID'',
                       case_sensitive = False, skip_if_column_missing = False \<rparr>] \<rparr>"

text \<open>An aggregation by a column that the orders do not have.\<close>

definition by_customer :: AggregateConfig where
  "by_customer =
     \<lparr> group_by = ''customer'',
       aggregations = [(''total'', \<lparr> source = ''amount'', agg_function = Agg_SUM,
                                    agg_coerce_numeric = True, separator = '', '' \<rparr>)] \<rparr>"

text \<open>A validation that requires a field that the orders do not have.\<close>

definition needs_phone :: ValidateConfig where
  "needs_phone =
     \<lparr> required_fields = Some [''phone''], quarantine_invalid = Some True, validate_types = None \<rparr>"

text \<open>The four components of what \<open>process\<close> returns.\<close>

definition exit_of :: "exit_point \<times> nat option \<times> ProcessingResult \<times> heap \<Rightarrow> exit_point" where
  "exit_of p = fst p"

definition output_of :: "exit_point \<times> nat option \<times> ProcessingResult \<times> heap \<Rightarrow> nat option" where
  "output_of p = fst (snd p)"

definition result_of :: "exit_point \<times> nat option \<times> ProcessingResult \<times> heap \<Rightarrow> ProcessingResult" where
  "result_of p = fst (snd (snd p))"

definition heap_of :: "exit_point \<times> nat option \<times> ProcessingResult \<times> heap \<Rightarrow> heap" where
  "heap_of p = snd (snd (snd p))"

text \<open>
  The table and the context when the loop over the steps of \<open>process\<close> has finished;
  \<open>None\<close> when \<open>process\<close> has returned before.
\<close>

definition after_steps ::
  "pandas_lib \<Rightarrow> registry \<Rightarrow> (string list \<Rightarrow> pyexn + pyval) \<Rightarrow> nat \<Rightarrow> BrandConfig \<Rightarrow>
   string option \<Rightarrow> heap \<Rightarrow> (dataframe \<times> ProcessingContext) option" where
  "after_steps L R gc df bc src h =
     (let (schema_errors, c1) = validate_schema (h ! df) bc (new_context gc (brand bc) src)
      in if schema_errors \<noteq> [] then None
         else (case run_steps L R (len_df (h ! df)) (pipeline bc) (length h) c1 (h @ [h ! df]) of
                 (Inl x, c2, h2) \<Rightarrow> None
               | (Inr last_df, c2, h2) \<Rightarrow> Some (h2 ! last_df, c2)))"

text \<open>The messages and entries that the engine records.\<close>

definition no_rows_message :: "string \<Rightarrow> string" where
  "no_rows_message nm = ''Step '' @ [CHR 0x27] @ nm @ [CHR 0x27] @ '' produced no output rows''"

definition missing_columns :: "dataframe \<Rightarrow> string list \<Rightarrow> string list" where
  "missing_columns t cs = filter (\<lambda>col. col \<notin> set (columns t)) cs"

definition missing_columns_error :: "ProcessingContext \<Rightarrow> string list \<Rightarrow> RowError" where
  "missing_columns_error c missing =
     \<lparr> row_index = current_row c, err_column = None,
       message = ''Missing output columns: '' @ repr_str_list missing,
       severity = ERROR, original_value = PNone \<rparr>"

text \<open>
  The rows of a table \<open>t\<close> laid out on the columns \<open>cs\<close>: each row keeps its label and
  gets one cell per column of \<open>cs\<close>, in that order, holding the row's value when \<open>t\<close> has
  the column and \<open>None\<close> when it has not.
\<close>

definition ordered_rows :: "dataframe \<Rightarrow> string list \<Rightarrow> (label \<times> series) list" where
  "ordered_rows t cs =
     map (\<lambda>(idx, row).
            (idx, map (\<lambda>col. (col, if col \<in> set (columns t) then series_get row col else PNone)) cs))
         (rows t)"

text \<open>
  The loop over the mappings, for one row: the values it computes, and the extended row
  and the context it has reached when it comes to the mapping at position \<open>k\<close>.
\<close>

definition computed ::
  "registry \<Rightarrow> (string \<times> FieldMapping) list \<Rightarrow> series \<Rightarrow> ProcessingContext \<Rightarrow> pyval list" where
  "computed R ms row c = fst (transform_fields R ms row c)"

definition extended_at ::
  "registry \<Rightarrow> (string \<times> FieldMapping) list \<Rightarrow> nat \<Rightarrow> series \<Rightarrow> ProcessingContext \<Rightarrow> series" where
  "extended_at R ms k row c = fst (snd (transform_fields R (take k ms) row c))"

definition context_at ::
  "registry \<Rightarrow> (string \<times> FieldMapping) list \<Rightarrow> nat \<Rightarrow> series \<Rightarrow> ProcessingContext \<Rightarrow>
   ProcessingContext" where
  "context_at R ms k row c = snd (snd (transform_fields R (take k ms) row c))"

text \<open>Example configurations.\<close>

definition refunded_only :: FilterConfig where
  "refunded_only =
     \<lparr> mode = all_of,
       conditions = [\<lparr> column = ''status'', operator = EQUALS, cvalue = PStr ''refunded'',
                       case_sensitive = False, skip_if_column_missing = False \<rparr>] \<rparr>"

definition by_status :: AggregateConfig where
  "by_status =
     \<lparr> group_by = ''status'',
       aggregations = [(''total'', \<lparr> source = ''amount'', agg_function = Agg_SUM,
                                    agg_coerce_numeric = True, separator = '', '' \<rparr>)] \<rparr>"

definition orders_text :: dataframe where
  "orders_text =
     \<lparr> columns = [''status'', ''amount''],
       rows = [(LInt 0, [(''status'', PStr ''paid''), (''amount'', PStr ''10'')]),
               (LInt 1, [(''status'', PStr ''open''), (''amount'', PStr ''20'')])] \<rparr>"

definition acme :: "PipelineStep list \<Rightarrow> string list \<Rightarrow> BrandConfig" where
  "acme steps out_cols =
     \<lparr> brand = ''Acme'',
       input_schema = \<lparr> required_columns = [''status''], optional_columns = [''note''] \<rparr>,
       pipeline = steps,
       output_columns = out_cols \<rparr>"

definition run :: "BrandConfig \<Rightarrow> dataframe \<Rightarrow> exit_point \<times> nat option \<times> ProcessingResult \<times> heap" where
  "run bc t = process demo_lib (registry_of demo_lib) demo_global 0 bc None [t]"

definition static_five :: FieldMapping where
  "static_five = (bare_mapping STATIC)\<lparr>fm_value := PInt 5\<rparr>"

definition formula_of :: "string \<Rightarrow> FieldMapping" where
  "formula_of expr =
     (bare_mapping FORMULA)\<lparr>fm_formula := Some \<lparr>expression = expr, coerce_numeric = True\<rparr>\<rparr>"

definition filter_step :: "FilterConfig \<Rightarrow> PipelineStep" where
  "filter_step fc = \<lparr>step = ''filter'', config = FilterCfg fc\<rparr>"

definition aggregate_step :: "AggregateConfig \<Rightarrow> PipelineStep" where
  "aggregate_step ac = \<lparr>step = ''aggregate'', config = AggregateCfg ac\<rparr>"

text \<open>Paid orders, with a \<open>phone\<close> column in the output that no step produces.\<close>

definition paid_with_phone :: BrandConfig where
  "paid_with_phone = acme [filter_step paid_only] [''status'', ''amount'', ''phone'']"

text \<open>Paid orders, with the columns the table has, in another order.\<close>

definition paid_reordered :: BrandConfig where
  "paid_reordered = acme [filter_step paid_only] [''amount'', ''status'']"

text \<open>An aggregation that cannot find its group-by column, then a filter that keeps no row.\<close>

definition grouped_then_refunded :: BrandConfig where
  "grouped_then_refunded =
     acme [aggregate_step by_customer, filter_step refunded_only] [''status'', ''amount'']"

text \<open>A filter that keeps no row.\<close>

definition refunded :: BrandConfig where
  "refunded = acme [filter_step refunded_only] [''status'', ''amount'']"

text \<open>An aggregation that coerces the amounts to numbers.\<close>

definition grouped_by_status :: BrandConfig where
  "grouped_by_status = acme [aggregate_step by_status] [''status'', ''amount'']"

text \<open>
  What a step leaves behind respects the heap below address \<open>n\<close>: the heap has not shrunk,
  the tables below \<open>n\<close> are as they were, and a returned address is a table of the heap
  at or above \<open>n\<close>.
\<close>

definition step_frame :: "nat \<Rightarrow> heap \<Rightarrow> (pyexn + nat) \<times> ProcessingContext \<times> heap \<Rightarrow> bool" where
  "step_frame n h r =
     (length h \<le> length (heap_after r) \<and> take n (heap_after r) = take n h \<and>
      (case returned r of Inl e \<Rightarrow> True | Inr a \<Rightarrow> n \<le> a \<and> a < length (heap_after r)))"

text \<open>
  The call of a step's executor as the loop of \<open>process\<close> makes it, the entry that the
  loop adds to the step results after the call, and the WARNING it records when the
  step has produced no row.
\<close>

definition step_call ::
  "pandas_lib \<Rightarrow> registry \<Rightarrow> PipelineStep \<Rightarrow> nat \<Rightarrow> ProcessingContext \<Rightarrow> heap \<Rightarrow>
   ((pyexn + nat) \<times> ProcessingContext \<times> heap) option" where
  "step_call L R s d c h = execute_step L R (step s) (config s) d (c\<lparr>current_step := step s\<rparr>) h"

definition step_result_of :: "PipelineStep \<Rightarrow> heap \<Rightarrow> nat \<Rightarrow> nat \<Rightarrow> StepResult" where
  "step_result_of s h1 d r =
     \<lparr> sr_step_name = step s,
       sr_input_rows = len_df (h1 ! d),
       sr_output_rows = len_df (h1 ! r),
       filtered_rows = int (len_df (h1 ! d)) - int (len_df (h1 ! r)) \<rparr>"

definition no_rows_warning :: "ProcessingContext \<Rightarrow> string \<Rightarrow> RowError" where
  "no_rows_warning c nm =
     \<lparr> row_index = current_row c, err_column = None, message = no_rows_message nm,
       severity = WARNING, original_value = PNone \<rparr>"

text \<open>
  The table, the context and the heap with which the loop of \<open>process\<close> comes to the
  step at position \<open>k\<close> of the pipeline; \<open>None\<close> when \<open>process\<close> has returned before.
\<close>

definition reached ::
  "pandas_lib \<Rightarrow> registry \<Rightarrow> (string list \<Rightarrow> pyexn + pyval) \<Rightarrow> nat \<Rightarrow> BrandConfig \<Rightarrow>
   string option \<Rightarrow> heap \<Rightarrow> nat \<Rightarrow> (nat \<times> ProcessingContext \<times> heap) option" where
  "reached L R gc df bc src h k =
     (let (schema_errors, c1) = validate_schema (h ! df) bc (new_context gc (brand bc) src)
      in if schema_errors \<noteq> [] then None
         else (case run_steps L R (len_df (h ! df)) (take k (pipeline bc)) (length h) c1
                       (h @ [h ! df]) of
                 (Inl x, c2, h2) \<Rightarrow> None
               | (Inr d, c2, h2) \<Rightarrow> Some (d, c2, h2)))"

text \<open>
  The transformers of a registry keep the errors: whatever a transformer does to the
  context, the errors recorded before its call are still there after it, in order. The
  transformers of the source record warnings only.
\<close>

definition keeps_errors :: "registry \<Rightarrow> bool" where
  "keeps_errors R =
     (\<forall>t tr row m i c. R t = Some tr \<longrightarrow> prefix (errors c) (errors (snd (tr row m i c))))"

text \<open>The WARNING that \<open>quarantine_row\<close> records in the validate step.\<close>

definition quarantine_warning :: "int \<Rightarrow> RowError" where
  "quarantine_warning ridx =
     \<lparr> row_index = ridx, err_column = None, message = ''Row quarantined: Failed validation'',
       severity = WARNING, original_value = PNone \<rparr>"

text \<open>
  The context with which the transform step enters the loop over the mappings for the
  row at position \<open>i\<close> of its table.
\<close>

definition row_context ::
  "registry \<Rightarrow> (string \<times> FieldMapping) list \<Rightarrow> (label \<times> series) list \<Rightarrow> nat \<Rightarrow>
   ProcessingContext \<Rightarrow> ProcessingContext" where
  "row_context R ms rws i c =
     (snd (transform_rows R ms (take i rws) c))\<lparr>current_row := label_int (fst (rws ! i))\<rparr>"


text \<open>An aggregation that cannot find its group-by column, as the only step.\<close>

definition grouped_by_customer :: BrandConfig where
  "grouped_by_customer = acme [aggregate_step by_customer] [''status'', ''amount'']"

text \<open>
  The context of a run of \<open>process\<close> on the example tables when the schema has been
  checked, and the calls of the first step in two of the example runs.
\<close>

definition checked :: "BrandConfig \<Rightarrow> dataframe \<Rightarrow> ProcessingContext" where
  "checked bc t = snd (validate_schema t bc (new_context demo_global (brand bc) None))"

definition refunded_call :: "(pyexn + nat) \<times> ProcessingContext \<times> heap" where
  "refunded_call =
     FilterStep_execute demo_lib 1 refunded_only
       ((checked refunded orders)\<lparr>current_step := ''filter''\<rparr>) [orders, orders]"

definition by_customer_call :: "(pyexn + nat) \<times> ProcessingContext \<times> heap" where
  "by_customer_call =
     AggregateStep_execute demo_lib 1 by_customer
       ((checked grouped_by_customer orders)\<lparr>current_step := ''aggregate''\<rparr>) [orders, orders]"

text \<open>
  The settings of the validate step with their defaults; the required fields that a row
  lacks, and those it has with an empty value; and the test at the end of the loop body
  of the step: a row stays when it lacks no required field or quarantine is off.
\<close>

definition required_of :: "ValidateConfig \<Rightarrow> string list" where
  "required_of cfg = (case required_fields cfg of None \<Rightarrow> [] | Some fs \<Rightarrow> fs)"

definition quarantine_of :: "ValidateConfig \<Rightarrow> bool" where
  "quarantine_of cfg = (case quarantine_invalid cfg of None \<Rightarrow> True | Some b \<Rightarrow> b)"

definition types_of :: "ValidateConfig \<Rightarrow> (string \<times> string) list" where
  "types_of cfg = (case validate_types cfg of None \<Rightarrow> [] | Some ts \<Rightarrow> ts)"

definition absent_fields :: "string list \<Rightarrow> series \<Rightarrow> string list" where
  "absent_fields req row = filter (\<lambda>f. \<not> in_index row f) req"

definition empty_fields :: "string list \<Rightarrow> series \<Rightarrow> string list" where
  "empty_fields req row = filter (\<lambda>f. in_index row f \<and> is_empty (series_get row f)) req"

definition row_kept :: "ValidateConfig \<Rightarrow> label \<times> series \<Rightarrow> bool" where
  "row_kept cfg r = (absent_fields (required_of cfg) (snd r) = [] \<or> \<not> quarantine_of cfg)"

text \<open>
  Two orders, the second with a blank status; a validation that requires the status and
  a phone, and one that requires the status only.
\<close>

definition orders_blank :: dataframe where
  "orders_blank =
     \<lparr> columns = [''status'', ''amount''],
       rows = [(LInt 0, [(''status'', PStr ''paid''), (''amount'', PInt 10)]),
               (LInt 1, [(''status'', PStr '' ''), (''amount'', PInt 20)])] \<rparr>"

definition needs_status_phone :: ValidateConfig where
  "needs_status_phone =
     \<lparr> required_fields = Some [''status'', ''phone''], quarantine_invalid = None,
       validate_types = None \<rparr>"

definition needs_status :: ValidateConfig where
  "needs_status =
     \<lparr> required_fields = Some [''status''], quarantine_invalid = None, validate_types = None \<rparr>"

definition blank_order :: series where
  "blank_order = [(''status'', PStr '' ''), (''amount'', PInt 20)]"

definition status_phone_call :: "(pyexn + nat) \<times> ProcessingContext \<times> heap" where
  "status_phone_call = ValidateStep_execute demo_lib 0 needs_status_phone ctx0 [orders_blank]"

definition status_call :: "(pyexn + nat) \<times> ProcessingContext \<times> heap" where
  "status_call = ValidateStep_execute demo_lib 0 needs_status ctx0 [orders_blank]"

text \<open>
  A table with the columns \<open>a\<close> and \<open>c\<close>, and a transform step that declares the field
  \<open>a\<close> as the constant 5 and then the field \<open>b\<close> as the formula \<open>{a} * {c}\<close>.
\<close>

definition readings :: dataframe where
  "readings =
     \<lparr> columns = [''a'', ''c''],
       rows = [(LInt 0, [(''a'', PInt 1), (''c'', PInt 9)]),
               (LInt 1, [(''a'', PInt 2), (''c'', PInt 3)])] \<rparr>"

definition five_times :: TransformConfig where
  "five_times = \<lparr> mappings = [(''a'', static_five), (''b'', formula_of ''{a} * {c}'')] \<rparr>"

definition five_times_call :: "(pyexn + nat) \<times> ProcessingContext \<times> heap" where
  "five_times_call = TransformStep_execute (registry_of demo_lib) 0 five_times ctx0 [readings]"

text \<open>
  In that step on that table: the context with which the loop over the mappings is
  entered for the second row, and the extended row with which it comes to the field \<open>b\<close>.
\<close>

definition reading_context :: ProcessingContext where
  "reading_context =
     row_context (registry_of demo_lib) (mappings five_times) (rows readings) 1 ctx0"

definition reading_extended :: series where
  "reading_extended =
     extended_at (registry_of demo_lib) (mappings five_times) 1 (snd (rows readings ! 1))
       reading_context"
section \<open>Config-load validation of field mappings\<close>

text \<open>
  C5, as stated, fails: a \<open>static\<close> mapping whose \<open>value\<close> is absent is accepted by the
  validator (the source says so: "Static can have None value").
\<close>

theorem C5_static_without_value_accepted:
  "sub_config_absent (bare_mapping STATIC) \<and>
   validate_type_config (bare_mapping STATIC) = Inr (bare_mapping STATIC)"
  by (simp add: sub_config_absent_def validate_type_config_def bare_mapping_def)

text \<open>
  C5, amended: a \<open>direct\<close> mapping without \<open>source_column\<close> is rejected when it is
  constructed, and a \<open>static\<close> mapping is accepted whatever its \<open>value\<close>.
\<close>

theorem C5_direct_rejected_static_accepted:
  "(fm_type m = DIRECT \<and> sub_config_absent m \<longrightarrow> isl (validate_type_config m)) \<and>
   (fm_type m = STATIC \<longrightarrow> validate_type_config m = Inr m)"
  by (simp add: sub_config_absent_def validate_type_config_def)

theorem C5_direct_rejected_static_accepted_witness:
  "fm_type (bare_mapping DIRECT) = DIRECT \<and> sub_config_absent (bare_mapping DIRECT) \<and>
   isl (validate_type_config (bare_mapping DIRECT)) \<and>
   fm_type (bare_mapping STATIC) = STATIC \<and>
   validate_type_config (bare_mapping STATIC) = Inr (bare_mapping STATIC)"
  using C5_direct_rejected_static_accepted [of "bare_mapping DIRECT"]
        C5_direct_rejected_static_accepted [of "bare_mapping STATIC"]
  by (simp add: sub_config_absent_def bare_mapping_def)

section \<open>Aggregate step without its group-by column\<close>

text \<open>
  C7: when the table lacks the \<open>group_by\<close> column, the aggregate step returns the very
  table it was given, leaves the heap as it was (same rows, columns and values), appends
  exactly one ERROR entry to the ledger and changes nothing else in the context, and
  raises nothing.
\<close>

theorem C7_missing_group_by_passes_through:
  assumes "group_by cfg \<notin> set (columns (h ! df))"
  shows "AggregateStep_execute L df cfg c h =
           (Inr df,
            c\<lparr>errors := errors c @
               [\<lparr> row_index = current_row c, err_column = None,
                  message = ''Group by column '' @ [CHR 0x27] @ group_by cfg @ [CHR 0x27]
                              @ '' not found'',
                  severity = ERROR, original_value = PNone \<rparr>]\<rparr>,
            h)"
  using assms by (simp add: AggregateStep_execute_def add_error_def Let_def)

theorem C7_missing_group_by_passes_through_witness:
  "group_by by_customer \<notin> set (columns ([orders] ! 0)) \<and>
   AggregateStep_execute demo_lib 0 by_customer ctx0 [orders] =
     (Inr 0,
      ctx0\<lparr>errors := errors ctx0 @
         [\<lparr> row_index = current_row ctx0, err_column = None,
            message = ''Group by column '' @ [CHR 0x27] @ group_by by_customer @ [CHR 0x27]
                        @ '' not found'',
            severity = ERROR, original_value = PNone \<rparr>]\<rparr>,
      [orders])"
proof -
  have g: "group_by by_customer \<notin> set (columns ([orders] ! 0))"
    by (simp add: by_customer_def orders_def)
  from g C7_missing_group_by_passes_through [OF g, of demo_lib ctx0] show ?thesis
    by simp
qed

section \<open>Filter step\<close>

lemma subseq_boolean_mask: "subseq (map fst (filter snd (zip xs m))) xs"
proof (induction xs arbitrary: m)
  case Nil
  then show ?case by simp
next
  case (Cons x xs)
  then show ?case by (cases m) auto
qed

text \<open>
  C10: whenever the filter step returns a table, its rows are a subsequence of the rows
  of the input table (each output row is an input row with its label and cells, none is
  duplicated or created, the order is kept), and the columns are the input's.
\<close>

theorem C10_filter_output_is_subsequence:
  assumes "returned (FilterStep_execute L df cfg c h) = Inr a"
  shows "subseq (rows (heap_after (FilterStep_execute L df cfg c h) ! a)) (rows (h ! df)) \<and>
         columns (heap_after (FilterStep_execute L df cfg c h) ! a) = columns (h ! df)"
  using assms
  by (auto simp: returned_def heap_after_def FilterStep_execute_def boolean_index_def alloc_def
                 subseq_boolean_mask
           split: if_splits prod.splits sum.splits list.splits)

theorem C10_filter_output_is_subsequence_witness:
  "returned (FilterStep_execute demo_lib 0 paid_only ctx0 [orders]) = Inr 1 \<and>
   rows (heap_after (FilterStep_execute demo_lib 0 paid_only ctx0 [orders]) ! 1) =
     [(LInt 0, [(''status'', PStr ''paid''), (''amount'', PInt 10)])] \<and>
   subseq (rows (heap_after (FilterStep_execute demo_lib 0 paid_only ctx0 [orders]) ! 1))
          (rows ([orders] ! 0)) \<and>
   columns (heap_after (FilterStep_execute demo_lib 0 paid_only ctx0 [orders]) ! 1) =
     columns ([orders] ! 0)"
proof -
  have r: "returned (FilterStep_execute demo_lib 0 paid_only ctx0 [orders]) = Inr 1"
    by code_simp
  have o: "rows (heap_after (FilterStep_execute demo_lib 0 paid_only ctx0 [orders]) ! 1) =
             [(LInt 0, [(''status'', PStr ''paid''), (''amount'', PInt 10)])]"
    by code_simp
  from r o C10_filter_output_is_subsequence [OF r] show ?thesis
    by simp
qed

section \<open>Validate step\<close>

lemma check_required_flag:
  "fst (check_required req row ridx v c) = (v \<and> list_all (in_index row) req)"
  by (induction req arbitrary: v c) auto

lemma check_required_errors:
  "errors (snd (check_required req row ridx v c)) =
     errors c @ map (missing_field_error ridx) (filter (\<lambda>f. \<not> in_index row f) req)"
  by (induction req arbitrary: v c)
     (auto simp: add_error_def add_warning_def missing_field_error_def)

lemma check_required_warnings:
  "warnings (snd (check_required req row ridx v c)) =
     warnings c @ map (empty_field_warning row ridx)
                    (filter (\<lambda>f. in_index row f \<and> is_empty (series_get row f)) req)"
  by (induction req arbitrary: v c)
     (auto simp: add_error_def add_warning_def empty_field_warning_def)

lemma check_required_quarantined:
  "quarantined_rows (snd (check_required req row ridx v c)) = quarantined_rows c"
  by (induction req arbitrary: v c)
     (auto simp: add_error_def add_warning_def)

lemma check_types_quarantined:
  "check_types L types row ridx c = (r, c') \<Longrightarrow> quarantined_rows c' = quarantined_rows c"
  by (induction types arbitrary: c)
     (auto simp: add_error_def add_warning_def split: if_splits sum.splits)

text \<open>One iteration of the loop over the rows, when the loop returns.\<close>

lemma validate_rows_step:
  assumes "validate_rows L req q types ((idx, row) # rws) c = (Inr kept, c')"
  obtains c2 kept' where
    "quarantined_rows c2 = quarantined_rows c"
    "validate_rows L req q types rws
       (if list_all (in_index row) req \<or> \<not> q then c2
        else quarantine_row (label_int idx) ''Failed validation'' c2) = (Inr kept', c')"
    "kept = (if list_all (in_index row) req \<or> \<not> q then [idx] else []) @ kept'"
proof -
  obtain v c1 where cr: "check_required req row (label_int idx) True c = (v, c1)"
    by (cases "check_required req row (label_int idx) True c")
  have v: "v = list_all (in_index row) req"
    using check_required_flag[of req row "label_int idx" True c] cr by simp
  have q1: "quarantined_rows c1 = quarantined_rows c"
    using check_required_quarantined[of req row "label_int idx" True c] cr by simp
  obtain u c2 where ct: "check_types L types row (label_int idx) c1 = (u, c2)"
    by (cases "check_types L types row (label_int idx) c1")
  have q2: "quarantined_rows c2 = quarantined_rows c"
    using check_types_quarantined[OF ct] q1 by simp
  from assms cr ct obtain kept' where
    "validate_rows L req q types rws
       (if v \<or> \<not> q then c2
        else quarantine_row (label_int idx) ''Failed validation'' c2) = (Inr kept', c')"
    "kept = (if v \<or> \<not> q then [idx] else []) @ kept'"
    by (auto simp: Let_def split: prod.splits sum.splits if_splits)
  with v q2 that show thesis by blast
qed

lemma validate_rows_kept:
  "validate_rows L req q types rws c = (Inr kept, c') \<Longrightarrow>
   kept = map fst (filter (\<lambda>(idx, row). list_all (in_index row) req \<or> \<not> q) rws)"
proof (induction rws arbitrary: c kept c')
  case Nil
  then show ?case by simp
next
  case (Cons r rws)
  obtain idx row where r: "r = (idx, row)" by (cases r)
  obtain c2 kept' where
    rec: "validate_rows L req q types rws
       (if list_all (in_index row) req \<or> \<not> q then c2
        else quarantine_row (label_int idx) ''Failed validation'' c2) = (Inr kept', c')"
    and k: "kept = (if list_all (in_index row) req \<or> \<not> q then [idx] else []) @ kept'"
    by (rule validate_rows_step[OF Cons.prems[unfolded r]]) blast
  from Cons.IH[OF rec] k r show ?case by simp
qed

lemma validate_rows_quarantined:
  "validate_rows L req q types rws c = (Inr kept, c') \<Longrightarrow>
   quarantined_rows c' = quarantined_rows c \<union>
      set (map (\<lambda>(idx, row). label_int idx)
               (filter (\<lambda>(idx, row). \<not> (list_all (in_index row) req \<or> \<not> q)) rws))"
proof (induction rws arbitrary: c kept c')
  case Nil
  then show ?case by simp
next
  case (Cons r rws)
  obtain idx row where r: "r = (idx, row)" by (cases r)
  obtain c2 kept' where
    q2: "quarantined_rows c2 = quarantined_rows c" and
    rec: "validate_rows L req q types rws
       (if list_all (in_index row) req \<or> \<not> q then c2
        else quarantine_row (label_int idx) ''Failed validation'' c2) = (Inr kept', c')"
    by (rule validate_rows_step[OF Cons.prems[unfolded r]]) blast
  have q3: "quarantined_rows (if list_all (in_index row) req \<or> \<not> q then c2
        else quarantine_row (label_int idx) ''Failed validation'' c2) =
        (if list_all (in_index row) req \<or> \<not> q then quarantined_rows c
         else insert (label_int idx) (quarantined_rows c))"
    using q2 by (simp add: quarantine_row_def add_error_def)
  from Cons.IH[OF rec] q3 r show ?case
    by (simp split: if_splits)
qed

section \<open>The heap under the steps\<close>

lemma take_le_cong: "n \<le> d \<Longrightarrow> take d xs = take d ys \<Longrightarrow> take n xs = take n ys"
  by (metis min.absorb1 take_take)

lemma build_agg_spec_frame:
  "build_agg_spec L d rules spec c h = (spec', c', h') \<Longrightarrow>
   length h' = length h \<and> take d h' = take d h"
proof (induction rules arbitrary: spec c h)
  case Nil
  then show ?case by simp
next
  case (Cons r rules)
  obtain nm rule where r: "r = (nm, rule)" by (cases r)
  show ?case
  proof (cases "source rule \<notin> set (columns (h ! d))")
    case True
    with Cons.prems r show ?thesis by (auto dest: Cons.IH)
  next
    case False
    define h1 where "h1 = (if agg_coerce_numeric rule
                   then h[d := set_column (h ! d) (source rule)
                                  (map (to_numeric L) (column_values (h ! d) (source rule)))]
                   else h)"
    have h1: "length h1 = length h \<and> take d h1 = take d h"
      by (simp add: h1_def)
    from Cons.prems r False obtain spec1 c1 where
      "build_agg_spec L d rules spec1 c1 h1 = (spec', c', h')"
      by (auto simp: h1_def Let_def split: option.splits)
    from Cons.IH[OF this] h1 show ?thesis by simp
  qed
qed

lemma filter_frame:
  "n \<le> d \<Longrightarrow> d < length h \<Longrightarrow> step_frame n h (FilterStep_execute L d cfg c h)"
  by (auto simp: step_frame_def returned_def heap_after_def FilterStep_execute_def alloc_def
           split: prod.splits sum.splits list.splits)

lemma aggregate_frame:
  assumes "n \<le> d" "d < length h"
  shows "step_frame n h (AggregateStep_execute L d cfg c h)"
proof (cases "group_by cfg \<notin> set (columns (h ! d))")
  case True
  with assms show ?thesis
    by (simp add: step_frame_def returned_def heap_after_def AggregateStep_execute_def)
next
  case False
  obtain spec c1 h1 where b: "build_agg_spec L d (aggregations cfg) [] c h = (spec, c1, h1)"
    by (cases "build_agg_spec L d (aggregations cfg) [] c h")
  from build_agg_spec_frame[OF b] assms have h1: "length h1 = length h" "take n h1 = take n h"
    by (auto intro: take_le_cong)
  with False b assms show ?thesis
    by (auto simp: step_frame_def returned_def heap_after_def AggregateStep_execute_def alloc_def
             split: sum.splits)
qed

lemma transform_frame:
  "n \<le> d \<Longrightarrow> d < length h \<Longrightarrow> step_frame n h (TransformStep_execute R d cfg c h)"
  by (auto simp: step_frame_def returned_def heap_after_def TransformStep_execute_def alloc_def
           split: prod.splits)

lemma validate_frame:
  "n \<le> d \<Longrightarrow> d < length h \<Longrightarrow> step_frame n h (ValidateStep_execute L d cfg c h)"
  by (auto simp: step_frame_def returned_def heap_after_def ValidateStep_execute_def alloc_def Let_def
           split: prod.splits sum.splits)

lemma execute_step_frame:
  assumes "n \<le> d" "d < length h" "execute_step L R nm cfg d c h = Some r"
  shows "step_frame n h r"
proof -
  have w: "step_frame n h (Inl e, c, h)" for e
    using assms by (simp add: step_frame_def returned_def heap_after_def)
  from assms(3) show ?thesis
    using filter_frame[OF assms(1,2)] aggregate_frame[OF assms(1,2)]
          transform_frame[OF assms(1,2)] validate_frame[OF assms(1,2)] w
    by (auto simp: execute_step_def Let_def split: if_splits StepConfig.splits)
qed

lemma run_steps_frame:
  "n \<le> cur \<Longrightarrow> cur < length h \<Longrightarrow> run_steps L R k steps cur c h = (r, c', h') \<Longrightarrow>
   length h \<le> length h' \<and> take n h' = take n h \<and>
   (case r of Inl x \<Rightarrow> True | Inr a \<Rightarrow> n \<le> a \<and> a < length h')"
proof (induction steps arbitrary: cur c h)
  case Nil
  then show ?case by auto
next
  case (Cons s steps)
  let ?c0 = "c\<lparr>current_step := step s\<rparr>"
  show ?case
  proof (cases "execute_step L R (step s) (config s) cur ?c0 h")
    case None
    with Cons.prems show ?thesis by (auto simp: Let_def)
  next
    case (Some q)
    obtain res c1 h1 where q: "q = (res, c1, h1)" by (cases q)
    from execute_step_frame[OF Cons.prems(1,2) Some] q
    have f: "length h \<le> length h1" "take n h1 = take n h"
      "case res of Inl e \<Rightarrow> True | Inr a \<Rightarrow> n \<le> a \<and> a < length h1"
      by (auto simp: step_frame_def returned_def heap_after_def split: sum.splits)
    show ?thesis
    proof (cases res)
      case (Inl e)
      with Cons.prems Some q f show ?thesis by (auto simp: Let_def)
    next
      case (Inr a)
      with f have a: "n \<le> a" "a < length h1" by simp_all
      show ?thesis
      proof (cases "len_df (h1 ! a) = 0")
        case True
        with Cons.prems Some q Inr f show ?thesis by (auto simp: Let_def)
      next
        case False
        with Cons.prems(3) Some q Inr obtain c2 where
          "run_steps L R k steps a c2 h1 = (r, c', h')"
          by (auto simp: Let_def)
        from Cons.IH[OF a this] f show ?thesis by auto
      qed
    qed
  qed
qed

section \<open>The loop over the steps and the output columns\<close>

lemma add_warning_last:
  "warnings (add_warning msg col orig ridx c) \<noteq> [] \<and>
   message (last (warnings (add_warning msg col orig ridx c))) = msg \<and>
   severity (last (warnings (add_warning msg col orig ridx c))) = WARNING"
  by (simp add: add_warning_def add_error_def)

lemma run_steps_early:
  "run_steps L R k steps cur c h = (Inl (ex, res), c', h') \<Longrightarrow>
   res = get_result k 0 (ex = NoOutputRows) c' \<and>
   (ex = UnknownStep \<or> ex = StepFailed \<or> ex = NoOutputRows) \<and>
   (ex = NoOutputRows \<longrightarrow>
      warnings c' \<noteq> [] \<and> severity (last (warnings c')) = WARNING \<and>
      message (last (warnings c')) \<in> no_rows_message ` step ` set steps)"
proof (induction steps arbitrary: cur c h)
  case Nil
  then show ?case by simp
next
  case (Cons s steps)
  let ?c0 = "c\<lparr>current_step := step s\<rparr>"
  show ?case
  proof (cases "execute_step L R (step s) (config s) cur ?c0 h")
    case None
    with Cons.prems show ?thesis by (auto simp: Let_def)
  next
    case (Some q)
    obtain r c1 h1 where q: "q = (r, c1, h1)" by (cases q)
    show ?thesis
    proof (cases r)
      case (Inl e)
      with Cons.prems Some q show ?thesis by (auto simp: Let_def)
    next
      case (Inr a)
      show ?thesis
      proof (cases "len_df (h1 ! a) = 0")
        case True
        with Cons.prems Some q Inr show ?thesis
          by (auto simp: Let_def add_warning_last no_rows_message_def)
      next
        case False
        with Cons.prems Some q Inr obtain c2 where
          "run_steps L R k steps a c2 h1 = (Inl (ex, res), c', h')"
          by (auto simp: Let_def)
        from Cons.IH[OF this] show ?thesis by auto
      qed
    qed
  qed
qed

lemma map_of_series_set: "map_of (series_set row c v) = (map_of row)(c \<mapsto> v)"
  by (induction row) (auto simp: fun_eq_iff)

lemma series_get_set: "series_get (series_set row c v) k = (if k = c then v else series_get row k)"
  by (simp add: series_get_def map_of_series_set)

lemma series_get_fill:
  "series_get (foldl (\<lambda>r col. series_set r col v) row cs) k =
     (if k \<in> set cs then v else series_get row k)"
  by (induction cs arbitrary: row) (auto simp: series_get_set)

lemma set_column_scalar_columns:
  "columns (set_column_scalar t col v) =
     (if col \<in> set (columns t) then columns t else columns t @ [col])"
  by (simp add: set_column_scalar_def set_column_def)

lemma set_column_scalar_rows:
  "rows (set_column_scalar t col v) = map (\<lambda>(idx, row). (idx, series_set row col v)) (rows t)"
  by (auto simp: set_column_scalar_def set_column_def len_df_def zip_replicate2 comp_def
           split: prod.splits)

lemma fill_columns:
  "set (columns (foldl (\<lambda>t col. set_column_scalar t col v) t cs)) = set (columns t) \<union> set cs"
  by (induction cs arbitrary: t) (auto simp: set_column_scalar_columns)

lemma fill_rows:
  "rows (foldl (\<lambda>t col. set_column_scalar t col v) t cs) =
     map (\<lambda>(idx, row). (idx, foldl (\<lambda>r col. series_set r col v) row cs)) (rows t)"
  by (induction cs arbitrary: t) (auto simp: set_column_scalar_rows comp_def split: prod.splits)

lemma order_output_columns_spec:
  fixes bc :: BrandConfig and h :: heap and d :: nat
  assumes "d < length h"
  defines "missing \<equiv> missing_columns (h ! d) (output_columns bc)"
  shows "order_output_columns d bc c h =
           (length h,
            (if missing = [] then c else c\<lparr>errors := errors c @ [missing_columns_error c missing]\<rparr>),
            (if missing = [] then h
             else h[d := foldl (\<lambda>t col. set_column_scalar t col PNone) (h ! d) missing])
            @ [\<lparr> columns = output_columns bc, rows = ordered_rows (h ! d) (output_columns bc) \<rparr>])"
proof (cases "missing = []")
  case True
  then have all: "list_all (\<lambda>c. c \<in> set (columns (h ! d))) (output_columns bc)"
    by (auto simp: missing_def missing_columns_def filter_empty_conv list_all_iff)
  then have "ordered_rows (h ! d) (output_columns bc) =
       map (\<lambda>(idx, row). (idx, map (\<lambda>c. (c, series_get row c)) (output_columns bc))) (rows (h ! d))"
    by (auto simp: ordered_rows_def list_all_iff)
  with True all show ?thesis
    by (simp add: order_output_columns_def Let_def select_columns_def alloc_def
                  missing_def[symmetric] missing_columns_def[symmetric])
next
  case False
  let ?t = "foldl (\<lambda>t col. set_column_scalar t col PNone) (h ! d) missing"
  have all: "list_all (\<lambda>c. c \<in> set (columns ?t)) (output_columns bc)"
    by (auto simp: fill_columns list_all_iff missing_def missing_columns_def)
  have "map (\<lambda>(idx, row). (idx, map (\<lambda>c. (c, series_get row c)) (output_columns bc))) (rows ?t)
        = ordered_rows (h ! d) (output_columns bc)"
    by (auto simp: ordered_rows_def fill_rows series_get_fill missing_def missing_columns_def comp_def split: prod.splits)
  with False all assms(1) show ?thesis
    by (simp add: order_output_columns_def Let_def select_columns_def alloc_def
                  missing_def[symmetric] missing_columns_def[symmetric] add_error_def missing_columns_error_def)
qed

text \<open>The three ways out of \<open>process\<close>.\<close>

lemma process_cases:
  fixes L R gc df bc src h
  defines "p \<equiv> process L R gc df bc src h"
  defines "n_in \<equiv> len_df (h ! df)"
  obtains
    (schema) c1 where
      "after_steps L R gc df bc src h = None"
      "p = (SchemaAbort, None, get_result n_in 0 False c1, h)"
  | (early) c1 ex res c2 h2 where
      "after_steps L R gc df bc src h = None"
      "run_steps L R n_in (pipeline bc) (length h) c1 (h @ [h ! df]) = (Inl (ex, res), c2, h2)"
      "p = (ex, None, res, h2)"
  | (completed) c1 last_df c2 h2 where
      "after_steps L R gc df bc src h = Some (h2 ! last_df, c2)"
      "run_steps L R n_in (pipeline bc) (length h) c1 (h @ [h ! df]) = (Inr last_df, c2, h2)"
      "p = (Completed, Some (fst (order_output_columns last_df bc c2 h2)),
            get_result n_in
              (len_df (snd (snd (order_output_columns last_df bc c2 h2))
                        ! fst (order_output_columns last_df bc c2 h2))) True
              (fst (snd (order_output_columns last_df bc c2 h2))),
            snd (snd (order_output_columns last_df bc c2 h2)))"
proof -
  obtain errs c1 where v: "validate_schema (h ! df) bc (new_context gc (brand bc) src) = (errs, c1)"
    by (cases "validate_schema (h ! df) bc (new_context gc (brand bc) src)")
  show thesis
  proof (cases "errs = []")
    case False
    with v have "p = (SchemaAbort, None, get_result n_in 0 False c1, h)"
      by (simp add: p_def n_in_def process_def Let_def)
    moreover from v False have "after_steps L R gc df bc src h = None"
      by (simp add: after_steps_def)
    ultimately show thesis by (rule schema[rotated])
  next
    case True
    obtain r c2 h2 where
      rs: "run_steps L R n_in (pipeline bc) (length h) c1 (h @ [h ! df]) = (r, c2, h2)"
      by (cases "run_steps L R n_in (pipeline bc) (length h) c1 (h @ [h ! df])")
    show thesis
    proof (cases r)
      case (Inl x)
      obtain ex res where x: "x = (ex, res)" by (cases x)
      from v True rs Inl x have "p = (ex, None, res, h2)"
        by (simp add: p_def n_in_def process_def Let_def alloc_def)
      moreover from v True rs Inl have "after_steps L R gc df bc src h = None"
        by (simp add: after_steps_def n_in_def)
      ultimately show thesis using rs Inl x by (auto intro: early)
    next
      case (Inr last_df)
      from v True rs Inr have
        "p = (Completed, Some (fst (order_output_columns last_df bc c2 h2)),
            get_result n_in
              (len_df (snd (snd (order_output_columns last_df bc c2 h2))
                        ! fst (order_output_columns last_df bc c2 h2))) True
              (fst (snd (order_output_columns last_df bc c2 h2))),
            snd (snd (order_output_columns last_df bc c2 h2)))"
        by (simp add: p_def n_in_def process_def Let_def alloc_def split: prod.splits)
      moreover from v True rs Inr have
        "after_steps L R gc df bc src h = Some (h2 ! last_df, c2)"
        by (simp add: after_steps_def n_in_def)
      ultimately show thesis using rs Inr by (auto intro: completed)
    qed
  qed
qed

section \<open>Errors stay recorded\<close>

text \<open>
  No step takes an entry off the list of errors: the errors recorded before a call are a
  prefix of the errors after it.
\<close>

lemma add_error_keeps: "prefix (errors c) (errors (add_error msg col orig ridx sev c))"
  by (simp add: add_error_def Let_def)

lemma add_warning_keeps: "errors (add_warning msg col orig ridx c) = errors c"
  by (simp add: add_warning_def add_error_def)

lemma resolve_ref_keeps: "errors (snd (resolve_ref v c)) = errors c"
  by (auto simp: resolve_ref_def resolve_reference_def split: pyval.splits option.splits list.splits sum.splits)

lemma evaluate_condition_keeps:
  "prefix (errors c) (errors (snd (evaluate_condition L df cond c)))"
proof (cases "column cond \<notin> set (columns df)")
  case True
  then show ?thesis by (simp add: evaluate_condition_def add_error_keeps add_warning_keeps)
next
  case False
  obtain r c' where r: "resolve_ref (cvalue cond) c = (r, c')" by (cases "resolve_ref (cvalue cond) c")
  with resolve_ref_keeps[of "cvalue cond" c] have e: "errors c' = errors c" by simp
  from False r e show ?thesis
    by (auto simp: evaluate_condition_def Let_def split: sum.splits)
qed

lemma collect_masks_keeps:
  "prefix (errors c) (errors (snd (collect_masks L df conds c)))"
proof (induction conds arbitrary: c)
  case Nil
  then show ?case by simp
next
  case (Cons cond conds)
  obtain r c1 where e: "evaluate_condition L df cond c = (r, c1)"
    by (cases "evaluate_condition L df cond c")
  with evaluate_condition_keeps[of c L df cond] have p1: "prefix (errors c) (errors c1)" by simp
  show ?case
  proof (cases r)
    case (Inl x)
    with e p1 show ?thesis by simp
  next
    case (Inr m)
    obtain r2 c2 where k: "collect_masks L df conds c1 = (r2, c2)"
      by (cases "collect_masks L df conds c1")
    with Cons.IH[of c1] have "prefix (errors c1) (errors c2)" by simp
    with p1 have "prefix (errors c) (errors c2)" by (rule prefix_order.trans)
    with e Inr k show ?thesis by (auto split: sum.splits)
  qed
qed

lemma filter_keeps:
  "prefix (errors c) (errors (context_after (FilterStep_execute L d cfg c h)))"
proof -
  obtain r c1 where k: "collect_masks L (h ! d) (conditions cfg) c = (r, c1)"
    by (cases "collect_masks L (h ! d) (conditions cfg) c")
  with collect_masks_keeps[of c L "h ! d" "conditions cfg"] have "prefix (errors c) (errors c1)"
    by simp
  with k show ?thesis
    by (auto simp: FilterStep_execute_def context_after_def alloc_def
             split: sum.splits list.splits prod.splits)
qed

lemma build_agg_spec_keeps:
  "build_agg_spec L d rules spec c h = (spec', c', h') \<Longrightarrow> errors c' = errors c"
proof (induction rules arbitrary: spec c h)
  case Nil
  then show ?case by simp
next
  case (Cons r rules)
  obtain nm rule where r: "r = (nm, rule)" by (cases r)
  from Cons.prems r obtain spec1 c1 h1 where
    "build_agg_spec L d rules spec1 c1 h1 = (spec', c', h')" "errors c1 = errors c"
    by (auto simp: Let_def add_warning_keeps split: if_splits option.splits)
  with Cons.IH show ?case by metis
qed

lemma aggregate_keeps:
  "prefix (errors c) (errors (context_after (AggregateStep_execute L d cfg c h)))"
proof (cases "group_by cfg \<notin> set (columns (h ! d))")
  case True
  then show ?thesis
    by (simp add: AggregateStep_execute_def context_after_def add_error_keeps)
next
  case False
  obtain spec c1 h1 where b: "build_agg_spec L d (aggregations cfg) [] c h = (spec, c1, h1)"
    by (cases "build_agg_spec L d (aggregations cfg) [] c h")
  from build_agg_spec_keeps[OF b] have e: "errors c1 = errors c" .
  have "prefix (errors c) (errors (add_error msg col orig ridx sev c1))" for msg col orig ridx sev
    using add_error_keeps[of c1 msg col orig ridx sev] e by simp
  with False b e show ?thesis
    by (auto simp: AggregateStep_execute_def context_after_def alloc_def split: sum.splits)
qed

lemma check_required_keeps:
  "prefix (errors c) (errors (snd (check_required req row ridx v c)))"
  by (simp add: check_required_errors)

lemma check_types_keeps:
  "errors (snd (check_types L types row ridx c)) = errors c"
  by (induction types arbitrary: c)
     (auto simp: add_warning_keeps split: sum.splits)

lemma quarantine_row_keeps: "errors (quarantine_row ridx reason c) = errors c"
  by (simp add: quarantine_row_def add_error_def)

lemma validate_rows_keeps:
  "prefix (errors c) (errors (snd (validate_rows L req q types rws c)))"
proof (induction rws arbitrary: c)
  case Nil
  then show ?case by simp
next
  case (Cons a rws)
  obtain idx row where a: "a = (idx, row)" by (cases a)
  obtain v c1 where cr: "check_required req row (label_int idx) True c = (v, c1)"
    by (cases "check_required req row (label_int idx) True c")
  with check_required_keeps[of c req row "label_int idx" True] have p1: "prefix (errors c) (errors c1)"
    by simp
  obtain u c2 where ct: "check_types L types row (label_int idx) c1 = (u, c2)"
    by (cases "check_types L types row (label_int idx) c1")
  with check_types_keeps[of L types row "label_int idx" c1] have e2: "errors c2 = errors c1" by simp
  show ?case
  proof (cases u)
    case (Inl e)
    with a cr ct p1 e2 show ?thesis by (simp add: Let_def)
  next
    case (Inr x)
    let ?c3 = "if v \<or> \<not> q then c2 else quarantine_row (label_int idx) ''Failed validation'' c2"
    have e3: "errors ?c3 = errors c1" using e2 by (simp add: quarantine_row_keeps)
    obtain r4 c4 where rec: "validate_rows L req q types rws ?c3 = (r4, c4)"
      by (cases "validate_rows L req q types rws ?c3")
    with Cons.IH[of ?c3] e3 have "prefix (errors c1) (errors c4)" by simp
    with p1 have "prefix (errors c) (errors c4)" by (rule prefix_order.trans)
    with a cr ct Inr rec show ?thesis by (auto simp: Let_def split: sum.splits)
  qed
qed

lemma validate_keeps:
  "prefix (errors c) (errors (context_after (ValidateStep_execute L d cfg c h)))"
proof -
  let ?req = "case required_fields cfg of None \<Rightarrow> [] | Some fs \<Rightarrow> fs"
  let ?q = "case quarantine_invalid cfg of None \<Rightarrow> True | Some b \<Rightarrow> b"
  let ?types = "case validate_types cfg of None \<Rightarrow> [] | Some ts \<Rightarrow> ts"
  obtain r c1 where v: "validate_rows L ?req ?q ?types (iterrows (h ! d)) c = (r, c1)"
    by (cases "validate_rows L ?req ?q ?types (iterrows (h ! d)) c")
  with validate_rows_keeps[of c L ?req ?q ?types "iterrows (h ! d)"]
  have "prefix (errors c) (errors c1)" by simp
  with v show ?thesis
    by (auto simp: ValidateStep_execute_def context_after_def alloc_def Let_def split: sum.splits)
qed

lemma eval_mapping_keeps:
  assumes "keeps_errors R"
  shows "prefix (errors c) (errors (snd (eval_mapping R ext f m c)))"
proof (cases "R (fm_type m)")
  case None
  then show ?thesis by (simp add: eval_mapping_def get_transformer_def add_warning_keeps)
next
  case (Some tr)
  obtain r c1 where t: "tr ext m (current_row c) c = (r, c1)" by (cases "tr ext m (current_row c) c")
  from assms Some have "prefix (errors c) (errors (snd (tr ext m (current_row c) c)))"
    unfolding keeps_errors_def by blast
  with t have "prefix (errors c) (errors c1)" by simp
  with Some t show ?thesis
    by (auto simp: eval_mapping_def get_transformer_def add_warning_keeps split: sum.splits)
qed

lemma transform_fields_keeps:
  assumes "keeps_errors R"
  shows "prefix (errors c) (errors (snd (snd (transform_fields R ms ext c))))"
proof (induction ms arbitrary: ext c)
  case Nil
  then show ?case by simp
next
  case (Cons a ms)
  obtain f m where a: "a = (f, m)" by (cases a)
  obtain v c1 where e: "eval_mapping R ext f m c = (v, c1)" by (cases "eval_mapping R ext f m c")
  with eval_mapping_keeps[OF assms, of c ext f m] have p1: "prefix (errors c) (errors c1)" by simp
  obtain vs ext' c2 where r: "transform_fields R ms (series_set ext f v) c1 = (vs, ext', c2)"
    by (cases "transform_fields R ms (series_set ext f v) c1")
  with Cons.IH[of c1 "series_set ext f v"] have "prefix (errors c1) (errors c2)" by simp
  with p1 have "prefix (errors c) (errors c2)" by (rule prefix_order.trans)
  with a e r show ?case by simp
qed

lemma transform_rows_keeps:
  assumes "keeps_errors R"
  shows "prefix (errors c) (errors (snd (transform_rows R ms rws c)))"
proof (induction rws arbitrary: c)
  case Nil
  then show ?case by simp
next
  case (Cons a rws)
  obtain idx row where a: "a = (idx, row)" by (cases a)
  let ?c0 = "c\<lparr>current_row := label_int idx\<rparr>"
  obtain vs ext c1 where t: "transform_fields R ms row ?c0 = (vs, ext, c1)"
    by (cases "transform_fields R ms row ?c0")
  with transform_fields_keeps[OF assms, of ?c0 ms row] have p1: "prefix (errors c) (errors c1)" by simp
  obtain out c2 where r: "transform_rows R ms rws c1 = (out, c2)"
    by (cases "transform_rows R ms rws c1")
  with Cons.IH[of c1] have "prefix (errors c1) (errors c2)" by simp
  with p1 have "prefix (errors c) (errors c2)" by (rule prefix_order.trans)
  with a t r show ?case by simp
qed

lemma transform_keeps:
  assumes "keeps_errors R"
  shows "prefix (errors c) (errors (context_after (TransformStep_execute R d cfg c h)))"
  using transform_rows_keeps[OF assms, of c "mappings cfg" "iterrows (h ! d)"]
  by (auto simp: TransformStep_execute_def context_after_def alloc_def split: prod.splits)

lemma execute_step_keeps:
  assumes "keeps_errors R" and "execute_step L R nm cfg d c h = Some out"
  shows "prefix (errors c) (errors (context_after out))"
proof -
  have w: "prefix (errors c) (errors (context_after (Inl e, c, h)))" for e :: pyexn
    by (simp add: context_after_def)
  from assms(2) show ?thesis
    using filter_keeps[of c L d _ h] aggregate_keeps[of c L d _ h]
          transform_keeps[OF assms(1), of c d _ h] validate_keeps[of c L d _ h] w
    by (auto simp: execute_step_def Let_def split: if_splits StepConfig.splits)
qed

lemma registry_of_keeps: "keeps_errors (registry_of L)"
  by (auto simp: keeps_errors_def registry_of_def StaticTransformer_transform_def
                 DirectTransformer_transform_def FormulaTransformer_transform_def
                 add_warning_keeps Let_def
           split: TransformType.splits option.splits sum.splits if_splits)

section \<open>The loop of \<open>process\<close>, step by step\<close>

text \<open>One iteration of the loop over the steps.\<close>

lemma run_steps_cons:
  "run_steps L R n (s # rest) d c h =
     (case step_call L R s d c h of
        None \<Rightarrow>
          (let c1 = add_error (''Unknown step type: '' @ step s) None PNone None CRITICAL
                      (c\<lparr>current_step := step s\<rparr>)
           in (Inl (UnknownStep, get_result n 0 False c1), c1, h))
      | Some (Inl e, c1, h1) \<Rightarrow>
          (let c2 = add_error (''Step '' @ [CHR 0x27] @ step s @ [CHR 0x27] @ '' failed: ''
                                 @ exn_str e) None PNone None CRITICAL c1
           in (Inl (StepFailed, get_result n 0 False c2), c2, h1))
      | Some (Inr r, c1, h1) \<Rightarrow>
          (let c2 = add_step_result (step_result_of s h1 d r) c1
           in if len_df (h1 ! r) = 0 then
                (let c3 = add_warning (no_rows_message (step s)) None PNone None c2
                 in (Inl (NoOutputRows, get_result n 0 True c3), c3, h1))
              else run_steps L R n rest r c2 h1))"
  by (simp add: step_call_def step_result_of_def no_rows_message_def Let_def
           split: option.splits sum.splits prod.splits)

lemma run_steps_append:
  "run_steps L R n (pre @ post) d c h =
     (case run_steps L R n pre d c h of
        (Inl x, c', h') \<Rightarrow> (Inl x, c', h')
      | (Inr d', c', h') \<Rightarrow> run_steps L R n post d' c' h')"
proof (induction pre arbitrary: d c h)
  case Nil
  then show ?case by simp
next
  case (Cons s pre)
  show ?case
    unfolding append_Cons run_steps_cons
    by (auto simp: Let_def Cons.IH split: option.splits sum.splits prod.splits)
qed

lemma run_steps_keeps:
  assumes "keeps_errors R"
  shows "prefix (errors c) (errors (fst (snd (run_steps L R n steps d c h))))"
proof (induction steps arbitrary: d c h)
  case Nil
  then show ?case by simp
next
  case (Cons s steps)
  show ?case
  proof (cases "step_call L R s d c h")
    case None
    then show ?thesis
      unfolding run_steps_cons
      using add_error_keeps[of "c\<lparr>current_step := step s\<rparr>"]
      by (simp add: Let_def)
  next
    case (Some out)
    obtain r c1 h1 where out: "out = (r, c1, h1)" by (cases out)
    from execute_step_keeps[OF assms Some[unfolded step_call_def]] out
    have p1: "prefix (errors c) (errors c1)" by (simp add: context_after_def)
    show ?thesis
    proof (cases r)
      case (Inl e)
      have "prefix (errors c1) (errors (add_error msg col orig ridx sev c1))" for msg col orig ridx sev
        by (rule add_error_keeps)
      with p1 have "prefix (errors c) (errors (add_error msg col orig ridx sev c1))" for msg col orig ridx sev
        by (rule prefix_order.trans)
      with Some out Inl show ?thesis
        unfolding run_steps_cons by (simp add: Let_def)
    next
      case (Inr a)
      let ?c2 = "add_step_result (step_result_of s h1 d a) c1"
      have e2: "errors ?c2 = errors c1" by (simp add: add_step_result_def)
      show ?thesis
      proof (cases "len_df (h1 ! a) = 0")
        case True
        with Some out Inr p1 e2 show ?thesis
          unfolding run_steps_cons by (simp add: Let_def add_warning_keeps)
      next
        case False
        from Cons.IH[of ?c2 a h1] e2 p1
        have "prefix (errors c) (errors (fst (snd (run_steps L R n steps a ?c2 h1))))"
          by (metis prefix_order.trans)
        with Some out Inr False show ?thesis
          unfolding run_steps_cons by (simp add: Let_def)
      qed
    qed
  qed
qed

lemma reached_cases:
  assumes "reached L R gc df bc src h k = Some (d, c, h1)"
  obtains c0 where
    "validate_schema (h ! df) bc (new_context gc (brand bc) src) = ([], c0)"
    "run_steps L R (len_df (h ! df)) (take k (pipeline bc)) (length h) c0 (h @ [h ! df])
       = (Inr d, c, h1)"
proof -
  obtain errs c0 where v: "validate_schema (h ! df) bc (new_context gc (brand bc) src) = (errs, c0)"
    by (cases "validate_schema (h ! df) bc (new_context gc (brand bc) src)")
  from assms v have e: "errs = []"
    by (auto simp: reached_def split: if_splits)
  from assms v e have
    "run_steps L R (len_df (h ! df)) (take k (pipeline bc)) (length h) c0 (h @ [h ! df])
       = (Inr d, c, h1)"
    by (auto simp: reached_def split: prod.splits sum.splits)
  with v e that show thesis by simp
qed

lemma process_run:
  assumes "validate_schema (h ! df) bc (new_context gc (brand bc) src) = ([], c0)"
  shows "process L R gc df bc src h =
           (case run_steps L R (len_df (h ! df)) (pipeline bc) (length h) c0 (h @ [h ! df]) of
              (Inl (ex, res), c2, h2) \<Rightarrow> (ex, None, res, h2)
            | (Inr last_df, c2, h2) \<Rightarrow>
                (let (output_df, c3, h3) = order_output_columns last_df bc c2 h2
                 in (Completed, Some output_df,
                     get_result (len_df (h ! df)) (len_df (h3 ! output_df)) True c3, h3)))"
  using assms by (simp add: process_def Let_def alloc_def)

lemma zero_rows_end_run:
  assumes k: "k < length (pipeline bc)"
    and r: "reached L R gc df bc src h k = Some (d, c, h1)"
    and s: "step_call L R (pipeline bc ! k) d c h1 = Some out"
    and o: "returned out = Inr r"
    and z: "len_df (heap_after out ! r) = 0"
  shows "process L R gc df bc src h =
           (NoOutputRows, None,
            get_result (len_df (h ! df)) 0 True
              (add_warning (no_rows_message (step (pipeline bc ! k))) None PNone None
                 (add_step_result (step_result_of (pipeline bc ! k) (heap_after out) d r)
                    (context_after out))),
            heap_after out)"
proof -
  obtain c0 where v: "validate_schema (h ! df) bc (new_context gc (brand bc) src) = ([], c0)"
    and t: "run_steps L R (len_df (h ! df)) (take k (pipeline bc)) (length h) c0 (h @ [h ! df])
              = (Inr d, c, h1)"
    using r by (rule reached_cases)
  obtain c1 h2 where out: "out = (Inr r, c1, h2)"
    using o by (cases out) (auto simp: returned_def)
  have p: "pipeline bc = take k (pipeline bc) @ (pipeline bc ! k) # drop (Suc k) (pipeline bc)"
    using id_take_nth_drop[OF k] .
  have "run_steps L R (len_df (h ! df)) (take k (pipeline bc) @ (pipeline bc ! k) # drop (Suc k) (pipeline bc))
          (length h) c0 (h @ [h ! df])
        = (Inl (NoOutputRows,
                get_result (len_df (h ! df)) 0 True
                  (add_warning (no_rows_message (step (pipeline bc ! k))) None PNone None
                     (add_step_result (step_result_of (pipeline bc ! k) h2 d r) c1))),
           add_warning (no_rows_message (step (pipeline bc ! k))) None PNone None
             (add_step_result (step_result_of (pipeline bc ! k) h2 d r) c1),
           h2)"
    using t s out z
    by (simp add: run_steps_append run_steps_cons Let_def heap_after_def del: run_steps.simps(2))
  with p have "run_steps L R (len_df (h ! df)) (pipeline bc) (length h) c0 (h @ [h ! df])
        = (Inl (NoOutputRows,
                get_result (len_df (h ! df)) 0 True
                  (add_warning (no_rows_message (step (pipeline bc ! k))) None PNone None
                     (add_step_result (step_result_of (pipeline bc ! k) h2 d r) c1))),
           add_warning (no_rows_message (step (pipeline bc ! k))) None PNone None
             (add_step_result (step_result_of (pipeline bc ! k) h2 d r) c1),
           h2)"
    by simp
  with out show ?thesis
    by (simp add: process_run[OF v] heap_after_def context_after_def)
qed

lemma completed_steps:
  assumes ke: "keeps_errors R"
    and v: "validate_schema (h ! df) bc (new_context gc (brand bc) src) = ([], c0)"
    and rs: "run_steps L R (len_df (h ! df)) (pipeline bc) (length h) c0 (h @ [h ! df])
               = (Inr last_df, c2, h2)"
    and k: "k < length (pipeline bc)"
  shows "\<exists>d c h1 out r.
           reached L R gc df bc src h k = Some (d, c, h1) \<and>
           step_call L R (pipeline bc ! k) d c h1 = Some out \<and>
           returned out = Inr r \<and> 0 < len_df (heap_after out ! r) \<and>
           prefix (errors c) (errors (context_after out)) \<and>
           prefix (errors (context_after out)) (errors c2)"
proof -
  let ?n = "len_df (h ! df)"
  let ?s = "pipeline bc ! k"
  have p: "pipeline bc = take k (pipeline bc) @ ?s # drop (Suc k) (pipeline bc)"
    using id_take_nth_drop[OF k] .
  obtain r0 c h1 where t: "run_steps L R ?n (take k (pipeline bc)) (length h) c0 (h @ [h ! df]) = (r0, c, h1)"
    by (cases "run_steps L R ?n (take k (pipeline bc)) (length h) c0 (h @ [h ! df])")
  have full: "run_steps L R ?n (take k (pipeline bc) @ ?s # drop (Suc k) (pipeline bc))
                (length h) c0 (h @ [h ! df]) = (Inr last_df, c2, h2)"
    using rs p by simp
  from full t obtain d where r0: "r0 = Inr d"
    by (cases r0) (auto simp: run_steps_append)
  from full t r0 have rest: "run_steps L R ?n (?s # drop (Suc k) (pipeline bc)) d c h1 = (Inr last_df, c2, h2)"
    by (simp add: run_steps_append)
  from v t r0 have re: "reached L R gc df bc src h k = Some (d, c, h1)"
    by (simp add: reached_def)
  from rest obtain out where sc: "step_call L R ?s d c h1 = Some out"
    by (cases "step_call L R ?s d c h1") (auto simp: run_steps_cons Let_def simp del: run_steps.simps(2))
  obtain r c1 h3 where out: "out = (r, c1, h3)" by (cases out)
  from rest sc out obtain a where a: "r = Inr a"
    by (cases r) (auto simp: run_steps_cons Let_def simp del: run_steps.simps(2))
  from rest sc out a have nz: "len_df (h3 ! a) \<noteq> 0"
    by (auto simp: run_steps_cons Let_def simp del: run_steps.simps(2) split: if_splits)
  let ?c2 = "add_step_result (step_result_of ?s h3 d a) c1"
  from rest sc out a nz have tail: "run_steps L R ?n (drop (Suc k) (pipeline bc)) a ?c2 h3 = (Inr last_df, c2, h2)"
    by (simp add: run_steps_cons Let_def del: run_steps.simps(2))
  from run_steps_keeps[OF ke, of ?c2 L ?n "drop (Suc k) (pipeline bc)" a h3] tail
  have "prefix (errors ?c2) (errors c2)" by simp
  then have p2: "prefix (errors c1) (errors c2)" by (simp add: add_step_result_def)
  from execute_step_keeps[OF ke sc[unfolded step_call_def]] out
  have p1: "prefix (errors c) (errors c1)" by (simp add: context_after_def)
  from re sc out a nz p1 p2 show ?thesis
    by (auto simp: returned_def heap_after_def context_after_def)
qed

section \<open>Success of a completed run\<close>

text \<open>
  C1, as stated, fails: the run below executes its only step to completion and returns
  an output table, but the \<open>phone\<close> column of the output is missing from the last table;
  that records one ERROR (not CRITICAL), and the result returned has \<open>success = false\<close>.
\<close>

theorem C1_completed_run_with_error_fails:
  "exit_of (run paid_with_phone orders) = Completed \<and>
   output_of (run paid_with_phone orders) = Some 3 \<and>
   map severity (r_errors (result_of (run paid_with_phone orders))) = [ERROR] \<and>
   map message (r_errors (result_of (run paid_with_phone orders)))
     = [''Missing output columns: '' @ repr_str_list [''phone'']] \<and>
   \<not> success (result_of (run paid_with_phone orders))"
  by code_simp

text \<open>
  C1, amended. Let a run execute all its steps to completion, the transformers of the
  registry keeping the errors. The result has \<open>success = true\<close> exactly when its list
  of errors is empty. Every step of the pipeline has been called by the loop and has
  returned a table; the errors on record after that call, those recorded before the call
  included, are still at the front of the errors of the result, in order, so that an
  error recorded by any step makes the result \<open>success = false\<close>. The errors of the
  result are those on record after the last step, followed by the ERROR for the missing
  output columns when some are missing; the warnings are those on record after the last
  step. Recording a WARNING leaves the list of errors as it is; recording an entry of
  severity ERROR or CRITICAL appends the entry to it.
\<close>

theorem C1_success_iff_no_error_recorded:
  assumes "keeps_errors R"
    and "exit_of (process L R gc df bc src h) = Completed"
  shows "success (result_of (process L R gc df bc src h))
           = (r_errors (result_of (process L R gc df bc src h)) = []) \<and>
         (\<forall>k<length (pipeline bc). \<exists>d c h1 out r.
            reached L R gc df bc src h k = Some (d, c, h1) \<and>
            step_call L R (pipeline bc ! k) d c h1 = Some out \<and>
            returned out = Inr r \<and>
            prefix (errors c) (errors (context_after out)) \<and>
            prefix (errors (context_after out))
                   (r_errors (result_of (process L R gc df bc src h))) \<and>
            (errors (context_after out) \<noteq> []
               \<longrightarrow> \<not> success (result_of (process L R gc df bc src h)))) \<and>
         (\<exists>t c2.
            after_steps L R gc df bc src h = Some (t, c2) \<and>
            r_errors (result_of (process L R gc df bc src h))
              = errors c2 @
                (if missing_columns t (output_columns bc) = [] then []
                 else [missing_columns_error c2 (missing_columns t (output_columns bc))]) \<and>
            r_warnings (result_of (process L R gc df bc src h)) = warnings c2) \<and>
         errors (add_warning msg col orig ridx c0) = errors c0 \<and>
         (sev = ERROR \<or> sev = CRITICAL \<longrightarrow>
            errors (add_error msg col orig ridx sev c0)
              = errors c0 @ [\<lparr> row_index = (case ridx of Some i \<Rightarrow> i | None \<Rightarrow> current_row c0),
                                err_column = col, message = msg, severity = sev,
                                original_value = orig \<rparr>])"
proof (cases rule: process_cases[of L R gc df bc src h])
  case (schema c1)
  with assms(2) show ?thesis by (simp add: exit_of_def)
next
  case (early c1 ex res c2 h2)
  with assms(2) run_steps_early[OF early(2)] show ?thesis by (auto simp: exit_of_def)
next
  case (completed c1 last_df c2 h2)
  let ?p = "process L R gc df bc src h"
  obtain errs c1' where v: "validate_schema (h ! df) bc (new_context gc (brand bc) src) = (errs, c1')"
    by (cases "validate_schema (h ! df) bc (new_context gc (brand bc) src)")
  from completed(1) v have e: "errs = []"
    by (auto simp: after_steps_def split: if_splits)
  from completed(1) v e obtain d' h2' where
    rs: "run_steps L R (len_df (h ! df)) (pipeline bc) (length h) c1' (h @ [h ! df]) = (Inr d', c2, h2')"
    by (auto simp: after_steps_def split: prod.splits sum.splits)
  from run_steps_frame[OF _ _ completed(2), of "length h"]
  have f: "last_df < length h2" by simp
  have re: "r_errors (result_of ?p)
              = errors c2 @
                (if missing_columns (h2 ! last_df) (output_columns bc) = [] then []
                 else [missing_columns_error c2 (missing_columns (h2 ! last_df) (output_columns bc))])"
    and rw: "r_warnings (result_of ?p) = warnings c2"
    using order_output_columns_spec[OF f, of bc c2] completed(3)
    by (auto simp: result_of_def get_result_def)
  then have pre: "prefix (errors c2) (r_errors (result_of ?p))"
    by simp
  have su: "success (result_of ?p) = (r_errors (result_of ?p) = [])"
    using completed(3) by (simp add: result_of_def get_result_def)
  have steps: "\<exists>d c h1 out r.
            reached L R gc df bc src h k = Some (d, c, h1) \<and>
            step_call L R (pipeline bc ! k) d c h1 = Some out \<and>
            returned out = Inr r \<and>
            prefix (errors c) (errors (context_after out)) \<and>
            prefix (errors (context_after out)) (r_errors (result_of ?p)) \<and>
            (errors (context_after out) \<noteq> [] \<longrightarrow> \<not> success (result_of ?p))"
    if k: "k < length (pipeline bc)" for k
  proof -
    from completed_steps[OF assms(1) v[unfolded e] rs k] obtain d c h1 out r where
      s: "reached L R gc df bc src h k = Some (d, c, h1)"
         "step_call L R (pipeline bc ! k) d c h1 = Some out"
         "returned out = Inr r"
         "prefix (errors c) (errors (context_after out))"
         "prefix (errors (context_after out)) (errors c2)"
      by blast
    from s(5) pre have p: "prefix (errors (context_after out)) (r_errors (result_of ?p))"
      by (rule prefix_order.trans)
    then have "errors (context_after out) \<noteq> [] \<longrightarrow> \<not> success (result_of ?p)"
      unfolding su by auto
    with s p show ?thesis by blast
  qed
  have adds: "errors (add_warning msg col orig ridx c0) = errors c0 \<and>
         (sev = ERROR \<or> sev = CRITICAL \<longrightarrow>
            errors (add_error msg col orig ridx sev c0)
              = errors c0 @ [\<lparr> row_index = (case ridx of Some i \<Rightarrow> i | None \<Rightarrow> current_row c0),
                                err_column = col, message = msg, severity = sev,
                                original_value = orig \<rparr>])"
    by (auto simp: add_warning_def add_error_def)
  from su steps completed(1) re rw adds show ?thesis
    by blast
qed

text \<open>
  The witness: the only step, an aggregation, does not find its group-by column and
  records an ERROR; the run completes, the ERROR is in the result, and the result has
  \<open>success = false\<close>. A completed run that has recorded a WARNING (an optional input
  column is absent) and no error returns \<open>success = true\<close>.
\<close>

theorem C1_success_iff_no_error_recorded_witness:
  "keeps_errors (registry_of demo_lib) \<and>
   exit_of (run grouped_by_customer orders) = Completed \<and>
   length (pipeline grouped_by_customer) = 1 \<and>
   reached demo_lib (registry_of demo_lib) demo_global 0 grouped_by_customer None [orders] 0
     = Some (1, checked grouped_by_customer orders, [orders, orders]) \<and>
   step_call demo_lib (registry_of demo_lib) (pipeline grouped_by_customer ! 0) 1
       (checked grouped_by_customer orders) [orders, orders]
     = Some by_customer_call \<and>
   map severity (errors (context_after by_customer_call)) = [ERROR] \<and>
   prefix (errors (context_after by_customer_call))
          (r_errors (result_of (run grouped_by_customer orders))) \<and>
   \<not> success (result_of (run grouped_by_customer orders)) \<and>
   exit_of (run paid_reordered orders) = Completed \<and>
   map severity (r_warnings (result_of (run paid_reordered orders))) = [WARNING] \<and>
   r_errors (result_of (run paid_reordered orders)) = [] \<and>
   success (result_of (run paid_reordered orders)) \<and>
   errors (add_warning ''w'' None PNone None ctx0) = errors ctx0 \<and>
   map message (errors (add_error ''w'' None PNone None ERROR ctx0)) = [''w'']"
proof -
  let ?R = "registry_of demo_lib"
  have ke: "keeps_errors ?R"
    by (rule registry_of_keeps)
  have e1: "exit_of (process demo_lib ?R demo_global 0 grouped_by_customer None [orders]) = Completed"
    by code_simp
  have e2: "exit_of (process demo_lib ?R demo_global 0 paid_reordered None [orders]) = Completed"
    by code_simp
  have l: "length (pipeline grouped_by_customer) = 1"
    by (simp add: grouped_by_customer_def acme_def)
  have v: "fst (validate_schema orders grouped_by_customer
                  (new_context demo_global (brand grouped_by_customer) None)) = []"
    by code_simp
  have r: "reached demo_lib ?R demo_global 0 grouped_by_customer None [orders] 0
             = Some (1, checked grouped_by_customer orders, [orders, orders])"
    using v by (simp add: reached_def checked_def split_beta)
  have s: "step_call demo_lib ?R (pipeline grouped_by_customer ! 0) 1
             (checked grouped_by_customer orders) [orders, orders] = Some by_customer_call"
    by (simp add: step_call_def execute_step_def by_customer_call_def grouped_by_customer_def
                  acme_def aggregate_step_def)
  have sv: "map severity (errors (context_after by_customer_call)) = [ERROR]"
    by code_simp
  have w: "map severity (r_warnings (result_of (run paid_reordered orders))) = [WARNING]"
    by code_simp
  have n: "r_errors (result_of (run paid_reordered orders)) = []"
    by code_simp
  have c0: "errors ctx0 = []"
    by code_simp
  note a = C1_success_iff_no_error_recorded
      [where L = demo_lib and R = ?R and gc = demo_global and df = 0
         and bc = grouped_by_customer and src = None and h = "[orders]" and msg = "''w''"
         and col = None and orig = PNone and ridx = None and ?c0.0 = ctx0 and sev = ERROR,
       OF ke e1]
  note b = C1_success_iff_no_error_recorded
      [where L = demo_lib and R = ?R and gc = demo_global and df = 0
         and bc = paid_reordered and src = None and h = "[orders]" and msg = "''w''"
         and col = None and orig = PNone and ridx = None and ?c0.0 = ctx0 and sev = ERROR,
       OF ke e2]
  from a l obtain d c h1 out r' where
    o: "reached demo_lib ?R demo_global 0 grouped_by_customer None [orders] 0 = Some (d, c, h1)"
       "step_call demo_lib ?R (pipeline grouped_by_customer ! 0) d c h1 = Some out"
       "prefix (errors (context_after out))
               (r_errors (result_of (process demo_lib ?R demo_global 0 grouped_by_customer None [orders])))"
       "errors (context_after out) \<noteq> []
          \<longrightarrow> \<not> success (result_of (process demo_lib ?R demo_global 0 grouped_by_customer None [orders]))"
    by (metis zero_less_one)
  from o(1) r have "d = 1" "c = checked grouped_by_customer orders" "h1 = [orders, orders]"
    by simp_all
  with o(2) s have out: "out = by_customer_call" by simp
  from o(3,4) out sv have
    g: "prefix (errors (context_after by_customer_call))
               (r_errors (result_of (run grouped_by_customer orders)))"
       "\<not> success (result_of (run grouped_by_customer orders))"
    by (auto simp: run_def)
  from b n have su: "success (result_of (run paid_reordered orders))"
    by (simp add: run_def)
  from a c0 have ad: "errors (add_warning ''w'' None PNone None ctx0) = errors ctx0"
    "map message (errors (add_error ''w'' None PNone None ERROR ctx0)) = [''w'']"
    by simp_all
  from ke e1 e2 l r s sv g w n su ad show ?thesis
    by (simp add: run_def)
qed

section \<open>Output columns of a completed run\<close>

text \<open>
  C6: when a run executes all its steps to completion, let \<open>t\<close> be the table after the
  last step. The table returned has exactly the declared output columns, in the declared
  order; each of its rows is a row of \<open>t\<close> with its label, laid out on those columns, a
  column that \<open>t\<close> lacks being filled with \<open>None\<close>; the number of output rows reported is
  the number of rows of \<open>t\<close>; and when \<open>t\<close> lacks some declared column, exactly one entry
  is added to the errors, of severity ERROR, that names the missing columns.
\<close>

theorem C6_output_has_declared_columns:
  assumes "exit_of (process L R gc df bc src h) = Completed"
  shows "\<exists>t c2 out.
           after_steps L R gc df bc src h = Some (t, c2) \<and>
           output_of (process L R gc df bc src h) = Some out \<and>
           heap_of (process L R gc df bc src h) ! out
             = \<lparr> columns = output_columns bc, rows = ordered_rows t (output_columns bc) \<rparr> \<and>
           output_rows (result_of (process L R gc df bc src h)) = len_df t \<and>
           r_errors (result_of (process L R gc df bc src h))
             = errors c2 @
               (if missing_columns t (output_columns bc) = [] then []
                else [missing_columns_error c2 (missing_columns t (output_columns bc))]) \<and>
           r_warnings (result_of (process L R gc df bc src h)) = warnings c2"
proof (cases rule: process_cases[of L R gc df bc src h])
  case (schema c1)
  with assms show ?thesis by (simp add: exit_of_def)
next
  case (early c1 ex res c2 h2)
  with assms run_steps_early[OF early(2)] show ?thesis by (auto simp: exit_of_def)
next
  case (completed c1 last_df c2 h2)
  from run_steps_frame[OF _ _ completed(2), of "length h"]
  have f: "last_df < length h2" by simp
  from order_output_columns_spec[OF f, of bc c2] completed(1,3) show ?thesis
    by (auto simp: heap_of_def output_of_def result_of_def get_result_def ordered_rows_def
                   len_df_def nth_append)
qed

theorem C6_output_has_declared_columns_witness:
  "exit_of (run paid_with_phone orders) = Completed \<and>
   output_of (run paid_with_phone orders) = Some 3 \<and>
   heap_of (run paid_with_phone orders) ! 3
     = \<lparr> columns = [''status'', ''amount'', ''phone''],
         rows = [(LInt 0, [(''status'', PStr ''paid''), (''amount'', PInt 10),
                           (''phone'', PNone)])] \<rparr> \<and>
   (\<exists>t c2 out.
      after_steps demo_lib (registry_of demo_lib) demo_global 0 paid_with_phone None [orders]
        = Some (t, c2) \<and>
      output_of (run paid_with_phone orders) = Some out \<and>
      heap_of (run paid_with_phone orders) ! out
        = \<lparr> columns = output_columns paid_with_phone,
            rows = ordered_rows t (output_columns paid_with_phone) \<rparr> \<and>
      output_rows (result_of (run paid_with_phone orders)) = len_df t \<and>
      r_errors (result_of (run paid_with_phone orders))
        = errors c2 @
          (if missing_columns t (output_columns paid_with_phone) = [] then []
           else [missing_columns_error c2 (missing_columns t (output_columns paid_with_phone))]) \<and>
      r_warnings (result_of (run paid_with_phone orders)) = warnings c2)"
proof -
  have e: "exit_of (process demo_lib (registry_of demo_lib) demo_global 0 paid_with_phone None
                      [orders]) = Completed"
    by code_simp
  have o: "output_of (run paid_with_phone orders) = Some 3"
    by code_simp
  have t: "heap_of (run paid_with_phone orders) ! 3
     = \<lparr> columns = [''status'', ''amount'', ''phone''],
         rows = [(LInt 0, [(''status'', PStr ''paid''), (''amount'', PInt 10),
                           (''phone'', PNone)])] \<rparr>"
    by code_simp
  from e o t C6_output_has_declared_columns [OF e] show ?thesis
    by (simp add: run_def)
qed

section \<open>A step without output rows\<close>

text \<open>
  C8, as stated, fails: in the run below the aggregate step does not find its group-by
  column, records an ERROR and passes the table on; the filter step then keeps no row.
  The run ends early without output and with the WARNING for the filter step, but the
  result returned has \<open>success = false\<close>.
\<close>

theorem C8_no_rows_after_error_fails:
  "exit_of (run grouped_then_refunded orders) = NoOutputRows \<and>
   output_of (run grouped_then_refunded orders) = None \<and>
   map severity (r_errors (result_of (run grouped_then_refunded orders))) = [ERROR] \<and>
   message (last (r_warnings (result_of (run grouped_then_refunded orders))))
     = no_rows_message ''filter'' \<and>
   \<not> success (result_of (run grouped_then_refunded orders))"
  by code_simp

text \<open>
  C8, amended. When the loop of \<open>process\<close> comes to the step at position \<open>k\<close> of the
  pipeline and the call of that step returns a table without rows, \<open>process\<close> returns
  there, whatever steps follow: no output table, zero output rows, the heap as the
  step left it. The errors of the result are those on record after the call, and the
  result has \<open>success = true\<close> exactly when there are none; its warnings are those on
  record after the call followed by the WARNING that names this step; its step results
  end with the entry for this step.
\<close>

theorem C8_no_rows_ends_run_with_warning:
  assumes "k < length (pipeline bc)"
    and "reached L R gc df bc src h k = Some (d, c, h1)"
    and "step_call L R (pipeline bc ! k) d c h1 = Some out"
    and "returned out = Inr r"
    and "len_df (heap_after out ! r) = 0"
  shows "exit_of (process L R gc df bc src h) = NoOutputRows \<and>
         output_of (process L R gc df bc src h) = None \<and>
         output_rows (result_of (process L R gc df bc src h)) = 0 \<and>
         r_errors (result_of (process L R gc df bc src h)) = errors (context_after out) \<and>
         success (result_of (process L R gc df bc src h)) = (errors (context_after out) = []) \<and>
         r_warnings (result_of (process L R gc df bc src h))
           = warnings (context_after out)
             @ [no_rows_warning (context_after out) (step (pipeline bc ! k))] \<and>
         r_step_results (result_of (process L R gc df bc src h))
           = step_results (context_after out)
             @ [step_result_of (pipeline bc ! k) (heap_after out) d r] \<and>
         heap_of (process L R gc df bc src h) = heap_after out"
  unfolding zero_rows_end_run[OF assms]
  by (simp add: exit_of_def output_of_def result_of_def heap_of_def get_result_def
                add_warning_def add_error_def add_step_result_def no_rows_warning_def)

text \<open>
  The witness: the filter of the run below is the first step and keeps no row.
\<close>

theorem C8_no_rows_ends_run_with_warning_witness:
  "0 < length (pipeline refunded) \<and>
   reached demo_lib (registry_of demo_lib) demo_global 0 refunded None [orders] 0
     = Some (1, checked refunded orders, [orders, orders]) \<and>
   step_call demo_lib (registry_of demo_lib) (pipeline refunded ! 0) 1 (checked refunded orders)
       [orders, orders]
     = Some refunded_call \<and>
   returned refunded_call = Inr 2 \<and>
   len_df (heap_after refunded_call ! 2) = 0 \<and>
   errors (context_after refunded_call) = [] \<and>
   exit_of (run refunded orders) = NoOutputRows \<and>
   output_of (run refunded orders) = None \<and>
   output_rows (result_of (run refunded orders)) = 0 \<and>
   success (result_of (run refunded orders)) \<and>
   r_warnings (result_of (run refunded orders))
     = warnings (context_after refunded_call)
       @ [no_rows_warning (context_after refunded_call) ''filter'']"
proof -
  have k: "0 < length (pipeline refunded)"
    by (simp add: refunded_def acme_def)
  have v: "fst (validate_schema orders refunded (new_context demo_global (brand refunded) None)) = []"
    by code_simp
  have r: "reached demo_lib (registry_of demo_lib) demo_global 0 refunded None [orders] 0
             = Some (1, checked refunded orders, [orders, orders])"
    using v by (simp add: reached_def checked_def split_beta)
  have s: "step_call demo_lib (registry_of demo_lib) (pipeline refunded ! 0) 1
             (checked refunded orders) [orders, orders] = Some refunded_call"
    by (simp add: step_call_def execute_step_def refunded_call_def refunded_def acme_def
                  filter_step_def)
  have o: "returned refunded_call = Inr 2"
    by code_simp
  have z: "len_df (heap_after refunded_call ! 2) = 0"
    by code_simp
  have e: "errors (context_after refunded_call) = []"
    by code_simp
  from k r s o z e C8_no_rows_ends_run_with_warning [OF k r s o z] show ?thesis
    by (simp add: run_def refunded_def acme_def filter_step_def)
qed


section \<open>The caller's table\<close>

text \<open>
  C9: whatever way \<open>process\<close> returns, every table that was in the heap before the call
  is in the heap after the call as it was; in particular the input table, at its address,
  has the columns and the cell values it had.
\<close>

theorem C9_process_leaves_input_table:
  "take (length h) (heap_of (process L R gc df bc src h)) = h \<and>
   (df < length h \<longrightarrow> heap_of (process L R gc df bc src h) ! df = h ! df)"
proof -
  have t: "take (length h) (heap_of (process L R gc df bc src h)) = h"
  proof (cases rule: process_cases[of L R gc df bc src h])
    case (schema c1)
    then show ?thesis by (simp add: heap_of_def)
  next
    case (early c1 ex res c2 h2)
    from run_steps_frame[OF _ _ early(2), of "length h"] early(3) show ?thesis
      by (simp add: heap_of_def)
  next
    case (completed c1 last_df c2 h2)
    from run_steps_frame[OF _ _ completed(2), of "length h"]
    have f: "take (length h) h2 = h" "length h \<le> last_df" "last_df < length h2"
      by simp_all
    from order_output_columns_spec[OF f(3), of bc c2] f completed(3) show ?thesis
      by (simp add: heap_of_def)
  qed
  have "heap_of (process L R gc df bc src h) ! df = h ! df" if "df < length h"
  proof -
    from that have "take (length h) (heap_of (process L R gc df bc src h)) ! df
                      = heap_of (process L R gc df bc src h) ! df"
      by simp
    with t show ?thesis by simp
  qed
  with t show ?thesis by simp
qed

text \<open>
  The witness: the aggregate step coerces the amounts of its table to numbers in place.
  The table it works on is the copy at address 1; the caller's table at address 0 keeps
  its texts.
\<close>

theorem C9_process_leaves_input_table_witness:
  "(0::nat) < length [orders_text] \<and>
   heap_of (run grouped_by_status orders_text) ! 0 = orders_text \<and>
   column_values (heap_of (run grouped_by_status orders_text) ! 0) ''amount''
     = [PStr ''10'', PStr ''20''] \<and>
   column_values (heap_of (run grouped_by_status orders_text) ! 1) ''amount''
     = [PInt 10, PInt 20] \<and>
   take (length [orders_text]) (heap_of (run grouped_by_status orders_text)) = [orders_text]"
proof -
  have c0: "column_values (heap_of (run grouped_by_status orders_text) ! 0) ''amount''
              = [PStr ''10'', PStr ''20'']"
    by code_simp
  have c1: "column_values (heap_of (run grouped_by_status orders_text) ! 1) ''amount''
              = [PInt 10, PInt 20]"
    by code_simp
  from c0 c1
    C9_process_leaves_input_table
      [of "[orders_text]" demo_lib "registry_of demo_lib" demo_global 0 grouped_by_status None]
  show ?thesis by (simp add: run_def)
qed

section \<open>Validate step: rows kept and rows quarantined\<close>

lemma check_types_warnings:
  "prefix (warnings c) (warnings (snd (check_types L types row ridx c)))"
proof (induction types arbitrary: c)
  case Nil
  then show ?case by simp
next
  case (Cons t types)
  obtain field expected_type where t: "t = (field, expected_type)" by (cases t)
  define w where "w = add_warning (''Field '' @ [CHR 0x27] @ field @ [CHR 0x27]
                           @ '' has invalid type (expected '' @ expected_type @ '')'')
              (Some field) (series_get row field) (Some ridx) c"
  have p: "prefix (warnings c) (warnings w)"
    by (simp add: w_def add_warning_def add_error_def)
  have "snd (check_types L (t # types) row ridx c) = c \<or>
        snd (check_types L (t # types) row ridx c) = snd (check_types L types row ridx c) \<or>
        snd (check_types L (t # types) row ridx c) = snd (check_types L types row ridx w)"
    unfolding t w_def by (simp split: sum.splits)
  with Cons.IH[of c] Cons.IH[of w] p show ?case
    by (metis prefix_order.refl prefix_order.trans)
qed

text \<open>One iteration of the loop over the rows, with the ledger it leaves.\<close>

lemma validate_rows_iteration:
  assumes "validate_rows L req q types ((idx, row) # rws) c = (Inr kept, c')"
  obtains c3 kept' where
    "validate_rows L req q types rws c3 = (Inr kept', c')"
    "errors c3 = errors c @ map (missing_field_error (label_int idx)) (absent_fields req row)"
    "prefix (warnings c @ map (empty_field_warning row (label_int idx)) (empty_fields req row))
            (warnings c3)"
    "\<not> (absent_fields req row = [] \<or> \<not> q)
       \<Longrightarrow> quarantine_warning (label_int idx) \<in> set (warnings c3)"
    "types = [] \<Longrightarrow>
       warnings c3 = warnings c @ map (empty_field_warning row (label_int idx)) (empty_fields req row)
                     @ (if absent_fields req row = [] \<or> \<not> q then []
                        else [quarantine_warning (label_int idx)])"
proof -
  let ?ridx = "label_int idx"
  obtain v c1 where cr: "check_required req row ?ridx True c = (v, c1)"
    by (cases "check_required req row ?ridx True c")
  have v: "v = (absent_fields req row = [])"
    using check_required_flag[of req row ?ridx True c] cr
    by (auto simp: absent_fields_def filter_empty_conv list_all_iff)
  have e1: "errors c1 = errors c @ map (missing_field_error ?ridx) (absent_fields req row)"
    using check_required_errors[of req row ?ridx True c] cr by (simp add: absent_fields_def)
  have w1: "warnings c1 = warnings c @ map (empty_field_warning row ?ridx) (empty_fields req row)"
    using check_required_warnings[of req row ?ridx True c] cr by (simp add: empty_fields_def)
  obtain u c2 where ct: "check_types L types row ?ridx c1 = (u, c2)"
    by (cases "check_types L types row ?ridx c1")
  have e2: "errors c2 = errors c1"
    using check_types_keeps[of L types row ?ridx c1] ct by simp
  have w2: "prefix (warnings c1) (warnings c2)"
    using check_types_warnings[of c1 L types row ?ridx] ct by simp
  have t2: "c2 = c1" if "types = []"
    using ct that by simp
  define c3 where "c3 = (if v \<or> \<not> q then c2 else quarantine_row ?ridx ''Failed validation'' c2)"
  from assms cr ct obtain kept' where
    rec: "validate_rows L req q types rws c3 = (Inr kept', c')"
    unfolding c3_def
    by (auto simp: Let_def split: prod.splits sum.splits if_splits)
  have e3: "errors c3 = errors c @ map (missing_field_error ?ridx) (absent_fields req row)"
    using e1 e2 by (simp add: c3_def quarantine_row_def add_error_def)
  have w3: "warnings c3 = warnings c2 @ (if absent_fields req row = [] \<or> \<not> q then []
                                          else [quarantine_warning ?ridx])"
    by (simp add: c3_def v quarantine_row_def add_error_def quarantine_warning_def)
  have "prefix (warnings c1) (warnings c3)"
    using w2 unfolding w3 by (metis prefix_order.trans prefixI)
  then have p3: "prefix (warnings c @ map (empty_field_warning row ?ridx) (empty_fields req row))
                   (warnings c3)"
    unfolding w1 .
  have q3: "quarantine_warning ?ridx \<in> set (warnings c3)"
    if "\<not> (absent_fields req row = [] \<or> \<not> q)"
    using that by (simp add: w3)
  have x3: "warnings c3 = warnings c @ map (empty_field_warning row ?ridx) (empty_fields req row)
                     @ (if absent_fields req row = [] \<or> \<not> q then []
                        else [quarantine_warning ?ridx])"
    if "types = []"
    using t2[OF that] by (simp add: w3 w1)
  from rec e3 p3 q3 x3 that show thesis by blast
qed

lemma validate_rows_errors:
  "validate_rows L req q types rws c = (Inr kept, c') \<Longrightarrow>
   errors c' = errors c @
     concat (map (\<lambda>(idx, row). map (missing_field_error (label_int idx)) (absent_fields req row))
                 rws)"
proof (induction rws arbitrary: c kept c')
  case Nil
  then show ?case by simp
next
  case (Cons r rws)
  obtain idx row where r: "r = (idx, row)" by (cases r)
  obtain c3 kept' where
    rec: "validate_rows L req q types rws c3 = (Inr kept', c')" and
    e: "errors c3 = errors c @ map (missing_field_error (label_int idx)) (absent_fields req row)"
    by (rule validate_rows_iteration[OF Cons.prems[unfolded r]]) blast
  from Cons.IH[OF rec] e r show ?case by simp
qed

lemma validate_rows_warnings_exact:
  "validate_rows L req q [] rws c = (Inr kept, c') \<Longrightarrow>
   warnings c' = warnings c @
     concat (map (\<lambda>(idx, row).
                    map (empty_field_warning row (label_int idx)) (empty_fields req row)
                    @ (if absent_fields req row = [] \<or> \<not> q then []
                       else [quarantine_warning (label_int idx)]))
                 rws)"
proof (induction rws arbitrary: c kept c')
  case Nil
  then show ?case by simp
next
  case (Cons r rws)
  obtain idx row where r: "r = (idx, row)" by (cases r)
  obtain c3 kept' where
    rec: "validate_rows L req q [] rws c3 = (Inr kept', c')" and
    w: "warnings c3 = warnings c @ map (empty_field_warning row (label_int idx)) (empty_fields req row)
                     @ (if absent_fields req row = [] \<or> \<not> q then []
                        else [quarantine_warning (label_int idx)])"
    by (rule validate_rows_iteration[OF Cons.prems[unfolded r]]) blast
  from Cons.IH[OF rec] w r show ?case by simp
qed

lemma validate_rows_warnings_kept:
  "validate_rows L req q types rws c = (Inr kept, c') \<Longrightarrow> prefix (warnings c) (warnings c')"
proof (induction rws arbitrary: c kept c')
  case Nil
  then show ?case by simp
next
  case (Cons r rws)
  obtain idx row where r: "r = (idx, row)" by (cases r)
  obtain c3 kept' where
    rec: "validate_rows L req q types rws c3 = (Inr kept', c')" and
    p: "prefix (warnings c @ map (empty_field_warning row (label_int idx)) (empty_fields req row))
               (warnings c3)"
    by (rule validate_rows_iteration[OF Cons.prems[unfolded r]]) blast
  from p have "prefix (warnings c) (warnings c3)"
    by (metis append_prefixD)
  with Cons.IH[OF rec] show ?case
    by (metis prefix_order.trans)
qed

lemma validate_rows_warnings:
  "validate_rows L req q types rws c = (Inr kept, c') \<Longrightarrow> (idx, row) \<in> set rws \<Longrightarrow>
   (\<not> (absent_fields req row = [] \<or> \<not> q)
      \<longrightarrow> quarantine_warning (label_int idx) \<in> set (warnings c')) \<and>
   (\<forall>f\<in>set (empty_fields req row).
      empty_field_warning row (label_int idx) f \<in> set (warnings c'))"
proof (induction rws arbitrary: c kept c')
  case Nil
  then show ?case by simp
next
  case (Cons r rws)
  obtain idx' row' where r: "r = (idx', row')" by (cases r)
  obtain c3 kept' where
    rec: "validate_rows L req q types rws c3 = (Inr kept', c')" and
    p: "prefix (warnings c @ map (empty_field_warning row' (label_int idx')) (empty_fields req row'))
               (warnings c3)" and
    qw: "\<not> (absent_fields req row' = [] \<or> \<not> q)
           \<Longrightarrow> quarantine_warning (label_int idx') \<in> set (warnings c3)"
    by (rule validate_rows_iteration[OF Cons.prems(1)[unfolded r]]) blast
  show ?case
  proof (cases "(idx, row) = r")
    case True
    with r have eq: "idx' = idx" "row' = row" by simp_all
    from validate_rows_warnings_kept[OF rec] have s: "set (warnings c3) \<subseteq> set (warnings c')"
      by (rule set_mono_prefix)
    from p have "set (map (empty_field_warning row (label_int idx)) (empty_fields req row))
                   \<subseteq> set (warnings c3)"
      unfolding eq by (metis set_mono_prefix set_append le_sup_iff)
    with s qw show ?thesis unfolding eq by auto
  next
    case False
    with Cons.prems(2) have "(idx, row) \<in> set rws" by simp
    from Cons.IH[OF rec this] show ?thesis .
  qed
qed

lemma filter_label_single:
  "distinct (map fst rws) \<Longrightarrow> r \<in> set rws \<Longrightarrow> filter (\<lambda>r'. fst r' = fst r) rws = [r]"
proof (induction rws)
  case Nil
  then show ?case by simp
next
  case (Cons x rws)
  show ?case
  proof (cases "x = r")
    case True
    with Cons.prems(1) have n: "fst r \<notin> fst ` set rws"
      by simp
    have "fst y \<noteq> fst r" if "y \<in> set rws" for y
    proof
      assume "fst y = fst r"
      with that have "fst r \<in> fst ` set rws" by (metis imageI)
      with n show False by simp
    qed
    then have "filter (\<lambda>r'. fst r' = fst r) rws = []"
      by (simp add: filter_empty_conv)
    with True show ?thesis by simp
  next
    case False
    with Cons.prems have "r \<in> set rws" "fst x \<noteq> fst r"
      by (auto simp: image_iff)
    with Cons show ?thesis by simp
  qed
qed

lemma loc_rows_distinct:
  assumes "distinct (map fst (rows t))"
  shows "rows (loc_rows t (map fst (filter P (rows t)))) = filter P (rows t)"
proof -
  have "concat (map (\<lambda>l. filter (\<lambda>r. fst r = l) (rows t)) (map fst xs)) = xs"
    if "set xs \<subseteq> set (rows t)" for xs
    using that by (induction xs) (simp_all add: filter_label_single[OF assms])
  from this[of "filter P (rows t)"] show ?thesis
    by (simp add: loc_rows_def)
qed

lemma validate_step_returns:
  assumes "returned (ValidateStep_execute L df cfg c h) = Inr a"
  obtains kept c' where
    "validate_rows L (required_of cfg) (quarantine_of cfg) (types_of cfg) (rows (h ! df)) c
       = (Inr kept, c')"
    "ValidateStep_execute L df cfg c h = (Inr (length h), c', h @ [loc_rows (h ! df) kept])"
    "a = length h"
proof -
  obtain r c' where v: "validate_rows L (required_of cfg) (quarantine_of cfg) (types_of cfg)
                          (rows (h ! df)) c = (r, c')"
    by (cases "validate_rows L (required_of cfg) (quarantine_of cfg) (types_of cfg) (rows (h ! df)) c")
  from assms v obtain kept where r: "r = Inr kept"
    by (cases r)
       (auto simp: ValidateStep_execute_def required_of_def quarantine_of_def types_of_def
                   iterrows_def returned_def Let_def)
  from v r have e: "ValidateStep_execute L df cfg c h
                      = (Inr (length h), c', h @ [loc_rows (h ! df) kept])"
    by (simp add: ValidateStep_execute_def required_of_def quarantine_of_def types_of_def
                  iterrows_def Let_def alloc_def)
  with assms have "a = length h" by (simp add: returned_def)
  with v r e that show thesis by blast
qed

lemma validate_rows_total:
  "\<exists>kept c'. validate_rows L req q [] rws c = (Inr kept, c')"
proof (induction rws arbitrary: c)
  case Nil
  then show ?case by simp
next
  case (Cons r rws)
  obtain idx row where r: "r = (idx, row)" by (cases r)
  obtain v c1 where cr: "check_required req row (label_int idx) True c = (v, c1)"
    by (cases "check_required req row (label_int idx) True c")
  let ?c3 = "if v \<or> \<not> q then c1 else quarantine_row (label_int idx) ''Failed validation'' c1"
  from Cons.IH[of ?c3] obtain kept c' where
    "validate_rows L req q [] rws ?c3 = (Inr kept, c')" by blast
  with r cr show ?case by (simp add: Let_def)
qed

text \<open>
  C4, as stated, fails: the orders have no \<open>phone\<close> field, and with
  \<open>quarantine_invalid = true\<close> a validation that requires it quarantines both rows, for
  that reason alone: the only entries recorded are one ERROR per row for the absent field
  and one quarantine WARNING per row, and the table returned has no row.
\<close>

theorem C4_absent_field_quarantines_row:
  "returned (ValidateStep_execute demo_lib 0 needs_phone ctx0 [orders]) = Inr 1 \<and>
   rows (heap_after (ValidateStep_execute demo_lib 0 needs_phone ctx0 [orders]) ! 1) = [] \<and>
   quarantined_rows (context_after (ValidateStep_execute demo_lib 0 needs_phone ctx0 [orders]))
     = {0, 1} \<and>
   errors (context_after (ValidateStep_execute demo_lib 0 needs_phone ctx0 [orders]))
     = [missing_field_error 0 ''phone'', missing_field_error 1 ''phone''] \<and>
   map message (warnings (context_after (ValidateStep_execute demo_lib 0 needs_phone ctx0 [orders])))
     = [''Row quarantined: Failed validation'', ''Row quarantined: Failed validation'']"
  by code_simp

text \<open>
  C4, amended. Whenever the validate step returns, it returns a fresh table with the
  columns of its input, selected by the labels of the rows that lack no required field
  (every row when \<open>quarantine_invalid\<close> is off); the row labels being unique, its rows
  are those input rows, in order, and the other rows are left out. The indices of the
  other rows are added to the quarantined set and a quarantine WARNING is recorded for
  each of them. The errors recorded are one ERROR for each required field that a row lacks,
  row by row; a required field that is present but empty gives a WARNING and has no
  part in whether the row is kept. Without type checks the step always returns, and the
  warnings recorded are exactly these, row by row. For one row, the loop over the
  required fields leaves the row valid exactly when it lacks no required field.
\<close>

theorem C4_absent_invalidates_empty_warns:
  "(returned (ValidateStep_execute L df cfg c h) = Inr a \<longrightarrow>
      a = length h \<and>
      heap_after (ValidateStep_execute L df cfg c h)
        = h @ [loc_rows (h ! df) (map fst (filter (row_kept cfg) (rows (h ! df))))] \<and>
      columns (heap_after (ValidateStep_execute L df cfg c h) ! a) = columns (h ! df) \<and>
      (distinct (map fst (rows (h ! df))) \<longrightarrow>
         rows (heap_after (ValidateStep_execute L df cfg c h) ! a)
           = filter (row_kept cfg) (rows (h ! df))) \<and>
      quarantined_rows (context_after (ValidateStep_execute L df cfg c h))
        = quarantined_rows c \<union>
          (\<lambda>r. label_int (fst r)) ` {r \<in> set (rows (h ! df)). \<not> row_kept cfg r} \<and>
      errors (context_after (ValidateStep_execute L df cfg c h))
        = errors c @
          concat (map (\<lambda>(idx, row). map (missing_field_error (label_int idx))
                                         (absent_fields (required_of cfg) row))
                      (rows (h ! df))) \<and>
      prefix (warnings c) (warnings (context_after (ValidateStep_execute L df cfg c h))) \<and>
      (\<forall>(idx, row)\<in>set (rows (h ! df)).
         (\<not> row_kept cfg (idx, row) \<longrightarrow>
            quarantine_warning (label_int idx)
              \<in> set (warnings (context_after (ValidateStep_execute L df cfg c h)))) \<and>
         (\<forall>f\<in>set (empty_fields (required_of cfg) row).
            empty_field_warning row (label_int idx) f
              \<in> set (warnings (context_after (ValidateStep_execute L df cfg c h)))))) \<and>
   (types_of cfg = [] \<longrightarrow>
      returned (ValidateStep_execute L df cfg c h) = Inr (length h) \<and>
      warnings (context_after (ValidateStep_execute L df cfg c h))
        = warnings c @
          concat (map (\<lambda>(idx, row).
                         map (empty_field_warning row (label_int idx))
                             (empty_fields (required_of cfg) row)
                         @ (if row_kept cfg (idx, row) then []
                            else [quarantine_warning (label_int idx)]))
                      (rows (h ! df)))) \<and>
   row_kept cfg (idx0, row0)
     = (quarantine_of cfg \<longrightarrow> (\<forall>f\<in>set (required_of cfg). in_index row0 f)) \<and>
   fst (check_required req row0 ridx True c) = (absent_fields req row0 = []) \<and>
   errors (snd (check_required req row0 ridx True c))
     = errors c @ map (missing_field_error ridx) (absent_fields req row0) \<and>
   warnings (snd (check_required req row0 ridx True c))
     = warnings c @ map (empty_field_warning row0 ridx) (empty_fields req row0)"
proof -
  let ?v = "ValidateStep_execute L df cfg c h"
  let ?req = "required_of cfg" and ?q = "quarantine_of cfg"
  have keep: "(\<lambda>(idx, row). list_all (in_index row) ?req \<or> \<not> ?q) = row_kept cfg"
    by (auto simp: row_kept_def absent_fields_def filter_empty_conv list_all_iff fun_eq_iff)
  have nkeep: "(\<lambda>(idx, row). \<not> (list_all (in_index row) ?req \<or> \<not> ?q)) = (\<lambda>r. \<not> row_kept cfg r)"
    by (auto simp: row_kept_def absent_fields_def filter_empty_conv list_all_iff fun_eq_iff)
  have kp: "(absent_fields ?req row = [] \<or> \<not> ?q) = row_kept cfg (idx, row)" for idx row
    by (simp add: row_kept_def)
  have A: "a = length h \<and>
      heap_after ?v = h @ [loc_rows (h ! df) (map fst (filter (row_kept cfg) (rows (h ! df))))] \<and>
      columns (heap_after ?v ! a) = columns (h ! df) \<and>
      (distinct (map fst (rows (h ! df))) \<longrightarrow>
         rows (heap_after ?v ! a) = filter (row_kept cfg) (rows (h ! df))) \<and>
      quarantined_rows (context_after ?v)
        = quarantined_rows c \<union>
          (\<lambda>r. label_int (fst r)) ` {r \<in> set (rows (h ! df)). \<not> row_kept cfg r} \<and>
      errors (context_after ?v)
        = errors c @
          concat (map (\<lambda>(idx, row). map (missing_field_error (label_int idx))
                                         (absent_fields ?req row))
                      (rows (h ! df))) \<and>
      prefix (warnings c) (warnings (context_after ?v)) \<and>
      (\<forall>(idx, row)\<in>set (rows (h ! df)).
         (\<not> row_kept cfg (idx, row) \<longrightarrow>
            quarantine_warning (label_int idx) \<in> set (warnings (context_after ?v))) \<and>
         (\<forall>f\<in>set (empty_fields ?req row).
            empty_field_warning row (label_int idx) f \<in> set (warnings (context_after ?v))))"
    if r: "returned ?v = Inr a"
  proof -
    obtain kept c' where
      v: "validate_rows L ?req ?q (types_of cfg) (rows (h ! df)) c = (Inr kept, c')" and
      e: "?v = (Inr (length h), c', h @ [loc_rows (h ! df) kept])" and
      a: "a = length h"
      using r by (rule validate_step_returns)
    have k: "kept = map fst (filter (row_kept cfg) (rows (h ! df)))"
      using validate_rows_kept[OF v] unfolding keep .
    have qs: "quarantined_rows c'
        = quarantined_rows c \<union>
          (\<lambda>r. label_int (fst r)) ` {r \<in> set (rows (h ! df)). \<not> row_kept cfg r}"
      using validate_rows_quarantined[OF v] unfolding nkeep
      by (auto simp: image_iff split_beta)
    have w: "(\<not> row_kept cfg (idx, row) \<longrightarrow> quarantine_warning (label_int idx) \<in> set (warnings c')) \<and>
         (\<forall>f\<in>set (empty_fields ?req row).
            empty_field_warning row (label_int idx) f \<in> set (warnings c'))"
      if "(idx, row) \<in> set (rows (h ! df))" for idx row
      using validate_rows_warnings[OF v that] by (simp add: row_kept_def)
    have d: "rows (loc_rows (h ! df) kept) = filter (row_kept cfg) (rows (h ! df))"
      if "distinct (map fst (rows (h ! df)))"
      unfolding k by (rule loc_rows_distinct[OF that])
    have ha: "heap_after ?v = h @ [loc_rows (h ! df) kept]" and ca: "context_after ?v = c'"
      unfolding e by (simp_all add: heap_after_def context_after_def)
    have t: "heap_after ?v ! a = loc_rows (h ! df) kept"
      unfolding ha a by simp
    have c1: "columns (heap_after ?v ! a) = columns (h ! df)"
      unfolding t by (simp add: loc_rows_def)
    have c2: "distinct (map fst (rows (h ! df))) \<longrightarrow>
         rows (heap_after ?v ! a) = filter (row_kept cfg) (rows (h ! df))"
      unfolding t using d by simp
    have c3: "\<forall>(idx, row)\<in>set (rows (h ! df)).
         (\<not> row_kept cfg (idx, row) \<longrightarrow>
            quarantine_warning (label_int idx) \<in> set (warnings (context_after ?v))) \<and>
         (\<forall>f\<in>set (empty_fields ?req row).
            empty_field_warning row (label_int idx) f \<in> set (warnings (context_after ?v)))"
      unfolding ca using w by blast
    from a ha[unfolded k] c1 c2 qs validate_rows_errors[OF v] validate_rows_warnings_kept[OF v] c3
    show ?thesis
      unfolding ca by blast
  qed
  have B: "returned ?v = Inr (length h) \<and>
      warnings (context_after ?v)
        = warnings c @
          concat (map (\<lambda>(idx, row).
                         map (empty_field_warning row (label_int idx)) (empty_fields ?req row)
                         @ (if row_kept cfg (idx, row) then []
                            else [quarantine_warning (label_int idx)]))
                      (rows (h ! df)))"
    if t: "types_of cfg = []"
  proof -
    from validate_rows_total[of L ?req ?q "rows (h ! df)" c] obtain kept c' where
      v: "validate_rows L ?req ?q [] (rows (h ! df)) c = (Inr kept, c')" by blast
    then have e: "?v = (Inr (length h), c', h @ [loc_rows (h ! df) kept])"
      using t
      by (simp add: ValidateStep_execute_def required_of_def quarantine_of_def types_of_def
                    iterrows_def Let_def alloc_def)
    from validate_rows_warnings_exact[OF v] show ?thesis
      unfolding e by (simp add: returned_def context_after_def row_kept_def)
  qed
  have C: "row_kept cfg (idx0, row0) = (?q \<longrightarrow> (\<forall>f\<in>set ?req. in_index row0 f))"
    by (auto simp: row_kept_def absent_fields_def filter_empty_conv)
  have D: "fst (check_required req row0 ridx True c) = (absent_fields req row0 = [])"
    by (auto simp: check_required_flag absent_fields_def filter_empty_conv list_all_iff)
  have E: "errors (snd (check_required req row0 ridx True c))
     = errors c @ map (missing_field_error ridx) (absent_fields req row0)"
    by (simp add: check_required_errors absent_fields_def)
  have F: "warnings (snd (check_required req row0 ridx True c))
     = warnings c @ map (empty_field_warning row0 ridx) (empty_fields req row0)"
    by (simp add: check_required_warnings empty_fields_def)
  from A B C D E F show ?thesis
    by blast
qed
text \<open>
  The witness: two orders without a \<open>phone\<close> column, the second with a blank status.
  When the phone is required both rows are quarantined, the blank status giving a
  WARNING only; when only the status is required both rows are kept.
\<close>

theorem C4_absent_invalidates_empty_warns_witness:
  "returned status_phone_call = Inr 1 \<and>
   distinct (map fst (rows orders_blank)) \<and>
   types_of needs_status_phone = [] \<and>
   quarantine_of needs_status_phone \<and>
   rows orders_blank ! 1 = (LInt 1, blank_order) \<and>
   absent_fields (required_of needs_status_phone) blank_order = [''phone''] \<and>
   empty_fields (required_of needs_status_phone) blank_order = [''status''] \<and>
   \<not> row_kept needs_status_phone (LInt 1, blank_order) \<and>
   heap_after status_phone_call ! 1 = \<lparr> columns = [''status'', ''amount''], rows = [] \<rparr> \<and>
   quarantined_rows (context_after status_phone_call) = {0, 1} \<and>
   errors (context_after status_phone_call)
     = [missing_field_error 0 ''phone'', missing_field_error 1 ''phone''] \<and>
   warnings (context_after status_phone_call)
     = [quarantine_warning 0, empty_field_warning blank_order 1 ''status'',
        quarantine_warning 1] \<and>
   \<not> fst (check_required [''status'', ''phone''] blank_order 1 True ctx0) \<and>
   returned status_call = Inr 1 \<and>
   row_kept needs_status (LInt 1, blank_order) \<and>
   heap_after status_call ! 1 = orders_blank \<and>
   quarantined_rows (context_after status_call) = {} \<and>
   errors (context_after status_call) = [] \<and>
   warnings (context_after status_call) = [empty_field_warning blank_order 1 ''status''] \<and>
   fst (check_required [''status''] blank_order 1 True ctx0)"
proof -
  have r1: "returned (ValidateStep_execute demo_lib 0 needs_status_phone ctx0 [orders_blank]) = Inr 1"
    by code_simp
  have r2: "returned (ValidateStep_execute demo_lib 0 needs_status ctx0 [orders_blank]) = Inr 1"
    by code_simp
  have d: "distinct (map fst (rows ([orders_blank] ! 0)))"
    by code_simp
  have t: "types_of needs_status_phone = []" "types_of needs_status = []"
    by code_simp+
  have q: "quarantine_of needs_status_phone"
    by code_simp
  have b: "rows orders_blank ! 1 = (LInt 1, blank_order)"
    by code_simp
  have f: "absent_fields (required_of needs_status_phone) blank_order = [''phone'']"
          "empty_fields (required_of needs_status_phone) blank_order = [''status'']"
          "absent_fields [''status'', ''phone''] blank_order = [''phone'']"
          "absent_fields [''status''] blank_order = []"
    by code_simp+
  have k: "\<not> row_kept needs_status_phone (LInt 1, blank_order)"
          "row_kept needs_status (LInt 1, blank_order)"
    by code_simp+
  have c: "columns ([orders_blank] ! 0) = [''status'', ''amount'']"
    by code_simp
  have k1: "filter (row_kept needs_status_phone) (rows ([orders_blank] ! 0)) = []"
    by code_simp
  have k2: "filter (row_kept needs_status) (rows ([orders_blank] ! 0)) = rows orders_blank"
    by code_simp
  have n1: "{r \<in> set (rows ([orders_blank] ! 0)). \<not> row_kept needs_status_phone r}
              = set (rows orders_blank)"
    using k1 by (auto simp: filter_empty_conv)
  have n2: "{r \<in> set (rows ([orders_blank] ! 0)). \<not> row_kept needs_status r} = {}"
    using k2 by (metis (mono_tags, lifting) Collect_empty_eq filter_id_conv nth_Cons_0)
  have l: "(\<lambda>r. label_int (fst r)) ` set (rows orders_blank) = {0, 1}"
    by code_simp
  have e: "concat (map (\<lambda>(idx, row). map (missing_field_error (label_int idx))
                                         (absent_fields (required_of needs_status_phone) row))
                      (rows ([orders_blank] ! 0)))
             = [missing_field_error 0 ''phone'', missing_field_error 1 ''phone'']"
          "concat (map (\<lambda>(idx, row). map (missing_field_error (label_int idx))
                                         (absent_fields (required_of needs_status) row))
                      (rows ([orders_blank] ! 0))) = []"
    by code_simp+
  have w: "concat (map (\<lambda>(idx, row).
                         map (empty_field_warning row (label_int idx))
                             (empty_fields (required_of needs_status_phone) row)
                         @ (if row_kept needs_status_phone (idx, row) then []
                            else [quarantine_warning (label_int idx)]))
                      (rows ([orders_blank] ! 0)))
             = [quarantine_warning 0, empty_field_warning blank_order 1 ''status'',
                quarantine_warning 1]"
          "concat (map (\<lambda>(idx, row).
                         map (empty_field_warning row (label_int idx))
                             (empty_fields (required_of needs_status) row)
                         @ (if row_kept needs_status (idx, row) then []
                            else [quarantine_warning (label_int idx)]))
                      (rows ([orders_blank] ! 0)))
             = [empty_field_warning blank_order 1 ''status'']"
    by code_simp+
  have z: "errors ctx0 = []" "warnings ctx0 = []" "quarantined_rows ctx0 = {}"
    by (simp_all add: ctx0_def new_context_def)
  note x1 = C4_absent_invalidates_empty_warns
      [where L = demo_lib and df = 0 and cfg = needs_status_phone and c = ctx0
         and h = "[orders_blank]" and a = 1 and ?idx0.0 = "LInt 1" and ?row0.0 = blank_order
         and req = "[''status'', ''phone'']" and ridx = 1]
  note x2 = C4_absent_invalidates_empty_warns
      [where L = demo_lib and df = 0 and cfg = needs_status and c = ctx0
         and h = "[orders_blank]" and a = 1 and ?idx0.0 = "LInt 1" and ?row0.0 = blank_order
         and req = "[''status'']" and ridx = 1]
  note A1 = x1[THEN conjunct1, THEN mp, OF r1]
  note A2 = x2[THEN conjunct1, THEN mp, OF r2]
  note B1 = x1[THEN conjunct2, THEN conjunct1, THEN mp, OF t(1)]
  note B2 = x2[THEN conjunct2, THEN conjunct1, THEN mp, OF t(2)]
  note D1 = x1[THEN conjunct2, THEN conjunct2, THEN conjunct2, THEN conjunct1]
  note D2 = x2[THEN conjunct2, THEN conjunct2, THEN conjunct2, THEN conjunct1]
  have "columns (heap_after status_phone_call ! 1) = [''status'', ''amount'']"
    using A1[THEN conjunct2, THEN conjunct2, THEN conjunct1] c
    unfolding status_phone_call_def by simp
  moreover have "rows (heap_after status_phone_call ! 1) = []"
    using A1[THEN conjunct2, THEN conjunct2, THEN conjunct2, THEN conjunct1, THEN mp, OF d] k1
    unfolding status_phone_call_def by simp
  ultimately have h1: "heap_after status_phone_call ! 1
                   = \<lparr> columns = [''status'', ''amount''], rows = [] \<rparr>"
    by (intro dataframe.equality) simp_all
  have "columns (heap_after status_call ! 1) = columns orders_blank"
    using A2[THEN conjunct2, THEN conjunct2, THEN conjunct1]
    unfolding status_call_def by simp
  moreover have "rows (heap_after status_call ! 1) = rows orders_blank"
    using A2[THEN conjunct2, THEN conjunct2, THEN conjunct2, THEN conjunct1, THEN mp, OF d] k2
    unfolding status_call_def by simp
  ultimately have h2: "heap_after status_call ! 1 = orders_blank"
    by (intro dataframe.equality) simp_all
  have q1: "quarantined_rows (context_after status_phone_call) = {0, 1}"
    using A1[THEN conjunct2, THEN conjunct2, THEN conjunct2, THEN conjunct2, THEN conjunct1]
    unfolding status_phone_call_def n1 l z by simp
  have q2: "quarantined_rows (context_after status_call) = {}"
    using A2[THEN conjunct2, THEN conjunct2, THEN conjunct2, THEN conjunct2, THEN conjunct1]
    unfolding status_call_def n2 z by simp
  have e1: "errors (context_after status_phone_call)
     = [missing_field_error 0 ''phone'', missing_field_error 1 ''phone'']"
    using A1[THEN conjunct2, THEN conjunct2, THEN conjunct2, THEN conjunct2, THEN conjunct2,
             THEN conjunct1]
    unfolding status_phone_call_def e(1) z by simp
  have e2: "errors (context_after status_call) = []"
    using A2[THEN conjunct2, THEN conjunct2, THEN conjunct2, THEN conjunct2, THEN conjunct2,
             THEN conjunct1]
    unfolding status_call_def e(2) z by simp
  have w1: "warnings (context_after status_phone_call)
     = [quarantine_warning 0, empty_field_warning blank_order 1 ''status'', quarantine_warning 1]"
    using B1[THEN conjunct2] unfolding status_phone_call_def w(1) z by simp
  have w2: "warnings (context_after status_call) = [empty_field_warning blank_order 1 ''status'']"
    using B2[THEN conjunct2] unfolding status_call_def w(2) z by simp
  have v1: "\<not> fst (check_required [''status'', ''phone''] blank_order 1 True ctx0)"
    unfolding D1 f(3) by simp
  have v2: "fst (check_required [''status''] blank_order 1 True ctx0)"
    unfolding D2 f(4) by simp
  from r1 r2 d t q b f k h1 h2 q1 q2 e1 e2 w1 w2 v1 v2 show ?thesis
    unfolding status_phone_call_def status_call_def by simp
qed

section \<open>Transform step\<close>

lemma transform_fields_append:
  "transform_fields R (pre @ post) row c =
     (case transform_fields R pre row c of
        (vs, ext, c1) \<Rightarrow>
          (case transform_fields R post ext c1 of
             (ws, ext', c2) \<Rightarrow> (vs @ ws, ext', c2)))"
  by (induction pre arbitrary: row c) (auto split: prod.splits)

lemma transform_fields_length:
  "transform_fields R ms row c = (vs, ext, c') \<Longrightarrow> length vs = length ms"
proof (induction ms arbitrary: row c vs ext c')
  case Nil
  then show ?case by simp
next
  case (Cons a ms)
  obtain f m where a: "a = (f, m)" by (cases a)
  obtain v c1 where e: "eval_mapping R row f m c = (v, c1)" by (cases "eval_mapping R row f m c")
  from Cons.prems a e obtain ws where
    rec: "transform_fields R ms (series_set row f v) c1 = (ws, ext, c')" and vs: "vs = v # ws"
    by (auto split: prod.splits)
  from Cons.IH[OF rec] vs show ?case by simp
qed

lemma in_index_dom: "in_index row col = (col \<in> dom (map_of row))"
  by (simp add: in_index_def dom_map_of_conv_image_fst)

lemma in_index_set: "in_index (series_set row k v) col = (col = k \<or> in_index row col)"
  by (auto simp: in_index_dom map_of_series_set)

lemma transform_fields_extended:
  "transform_fields R ms row c = (vs, ext, c') \<Longrightarrow>
   (\<forall>col. col \<notin> fst ` set ms \<longrightarrow>
       series_get ext col = series_get row col \<and> in_index ext col = in_index row col) \<and>
   (\<forall>col. col \<in> fst ` set ms \<longrightarrow> in_index ext col)"
proof (induction ms arbitrary: row c vs ext c')
  case Nil
  then show ?case by simp
next
  case (Cons a ms)
  obtain f m where a: "a = (f, m)" by (cases a)
  obtain v c1 where e: "eval_mapping R row f m c = (v, c1)" by (cases "eval_mapping R row f m c")
  from Cons.prems a e obtain ws where
    rec: "transform_fields R ms (series_set row f v) c1 = (ws, ext, c')"
    by (auto split: prod.splits)
  note ih = Cons.IH[OF rec]
  show ?case
  proof (intro conjI allI impI)
    fix col assume n: "col \<notin> fst ` set (a # ms)"
    then have "col \<noteq> f" "col \<notin> fst ` set ms" using a by auto
    with ih show "series_get ext col = series_get row col"
      by (simp add: series_get_set)
    from \<open>col \<noteq> f\<close> \<open>col \<notin> fst ` set ms\<close> ih show "in_index ext col = in_index row col"
      by (simp add: in_index_set)
  next
    fix col assume "col \<in> fst ` set (a # ms)"
    then consider "col \<in> fst ` set ms" | "col = f" "col \<notin> fst ` set ms" using a by auto
    then show "in_index ext col"
    proof cases
      case 1
      with ih show ?thesis by blast
    next
      case 2
      with ih have "in_index ext col = in_index (series_set row f v) col" by blast
      with 2 show ?thesis by (simp add: in_index_set)
    qed
  qed
qed

lemma transform_fields_reads:
  "transform_fields R ms row c = (vs, ext, c') \<Longrightarrow> distinct (map fst ms) \<Longrightarrow> j < length ms \<Longrightarrow>
   series_get ext (fst (ms ! j)) = vs ! j"
proof (induction ms arbitrary: row c vs ext c' j)
  case Nil
  then show ?case by simp
next
  case (Cons a ms)
  obtain f m where a: "a = (f, m)" by (cases a)
  obtain v c1 where e: "eval_mapping R row f m c = (v, c1)" by (cases "eval_mapping R row f m c")
  from Cons.prems(1) a e obtain ws where
    rec: "transform_fields R ms (series_set row f v) c1 = (ws, ext, c')" and vs: "vs = v # ws"
    by (auto split: prod.splits)
  show ?case
  proof (cases j)
    case 0
    from Cons.prems(2) a have "f \<notin> fst ` set ms" by auto
    with transform_fields_extended[OF rec] have "series_get ext f = series_get (series_set row f v) f"
      by blast
    with 0 a vs show ?thesis by (simp add: series_get_set)
  next
    case (Suc i)
    with Cons.prems a have "distinct (map fst ms)" "i < length ms" by auto
    from Cons.IH[OF rec this] Suc vs show ?thesis by simp
  qed
qed

lemma transform_fields_at:
  assumes "k < length ms"
  shows "computed R ms row c ! k =
           fst (eval_mapping R (extended_at R ms k row c) (fst (ms ! k)) (snd (ms ! k))
                  (context_at R ms k row c)) \<and>
         take k (computed R ms row c) = computed R (take k ms) row c"
proof -
  obtain vs ext c1 where p: "transform_fields R (take k ms) row c = (vs, ext, c1)"
    by (cases "transform_fields R (take k ms) row c")
  have len: "length vs = k"
    using transform_fields_length[OF p] assms by simp
  obtain f m where fm: "ms ! k = (f, m)" by (cases "ms ! k")
  have ms: "ms = take k ms @ (f, m) # drop (Suc k) ms"
    using id_take_nth_drop[OF assms] fm by simp
  obtain v c2 where e: "eval_mapping R ext f m c1 = (v, c2)"
    by (cases "eval_mapping R ext f m c1")
  obtain ws ext' c3 where
    r: "transform_fields R (drop (Suc k) ms) (series_set ext f v) c2 = (ws, ext', c3)"
    by (cases "transform_fields R (drop (Suc k) ms) (series_set ext f v) c2")
  have "transform_fields R (take k ms @ (f, m) # drop (Suc k) ms) row c = (vs @ v # ws, ext', c3)"
    by (simp add: transform_fields_append p e r)
  with ms have "transform_fields R ms row c = (vs @ v # ws, ext', c3)" by simp
  with p e len fm show ?thesis
    by (simp add: computed_def extended_at_def context_at_def nth_append)
qed

lemma transform_rows_labels:
  "map fst (fst (transform_rows R ms rws c)) = map fst rws"
proof (induction rws arbitrary: c)
  case Nil
  then show ?case by simp
next
  case (Cons a rws)
  obtain idx row where a: "a = (idx, row)" by (cases a)
  obtain vs ext c1 where
    t: "transform_fields R ms row (c\<lparr>current_row := label_int idx\<rparr>) = (vs, ext, c1)"
    by (cases "transform_fields R ms row (c\<lparr>current_row := label_int idx\<rparr>)")
  obtain out c2 where r: "transform_rows R ms rws c1 = (out, c2)"
    by (cases "transform_rows R ms rws c1")
  from Cons.IH[of c1] r have "map fst out = map fst rws" by simp
  with a t r show ?case by simp
qed

lemma row_context_Suc:
  "row_context R ms ((idx, row) # rest) (Suc j) c
     = row_context R ms rest j
         (snd (snd (transform_fields R ms row (c\<lparr>current_row := label_int idx\<rparr>))))"
  by (simp add: row_context_def split: prod.splits)

lemma transform_rows_nth:
  "i < length rws \<Longrightarrow>
   fst (transform_rows R ms rws c) ! i
     = (fst (rws ! i),
        zip (map fst ms) (computed R ms (snd (rws ! i)) (row_context R ms rws i c)))"
proof (induction rws arbitrary: i c)
  case Nil
  then show ?case by simp
next
  case (Cons a rws)
  obtain idx row where a: "a = (idx, row)" by (cases a)
  let ?c0 = "c\<lparr>current_row := label_int idx\<rparr>"
  obtain vs ext c1 where t: "transform_fields R ms row ?c0 = (vs, ext, c1)"
    by (cases "transform_fields R ms row ?c0")
  obtain out c2 where r: "transform_rows R ms rws c1 = (out, c2)"
    by (cases "transform_rows R ms rws c1")
  have whole: "fst (transform_rows R ms (a # rws) c) = (idx, zip (map fst ms) vs) # out"
    using a t r by simp
  show ?case
  proof (cases i)
    case 0
    have "row_context R ms (a # rws) 0 c = ?c0"
      by (simp add: row_context_def a)
    with 0 whole t a show ?thesis
      by (simp add: computed_def)
  next
    case (Suc j)
    with Cons.prems have j: "j < length rws" by simp
    have "row_context R ms (a # rws) (Suc j) c = row_context R ms rws j c1"
      unfolding a row_context_Suc using t by simp
    with Cons.IH[OF j, of c1] r Suc whole show ?thesis
      by simp
  qed
qed

lemma series_get_zip:
  assumes "distinct xs" "length ys = length xs" "k < length xs"
  shows "series_get (zip xs ys) (xs ! k) = ys ! k \<and> in_index (zip xs ys) (xs ! k)"
proof -
  from assms have "map_of (zip xs ys) (xs ! k) = Some (ys ! k)"
    by (simp add: map_of_zip_nth)
  moreover from assms have "xs ! k \<in> fst ` set (zip xs ys)"
    by (metis map_fst_zip nth_mem set_map)
  ultimately show ?thesis
    by (simp add: series_get_def in_index_def)
qed

lemma computed_length: "length (computed R ms row c) = length ms"
  using transform_fields_length[of R ms row c]
  by (cases "transform_fields R ms row c") (simp add: computed_def)

lemma eval_mapping_calls:
  "R (fm_type m) = Some tr \<Longrightarrow>
   fst (eval_mapping R ext f m c)
     = (case fst (tr ext m (current_row c) c) of Inr v \<Rightarrow> v | Inl e \<Rightarrow> PNone)"
  by (simp add: eval_mapping_def get_transformer_def split: prod.splits sum.splits)

lemma extended_at_spec:
  assumes "k < length ms" and "distinct (map fst ms)"
  shows "(\<forall>j<k. in_index (extended_at R ms k row c) (fst (ms ! j)) \<and>
                 series_get (extended_at R ms k row c) (fst (ms ! j)) = computed R ms row c ! j) \<and>
         (\<forall>col. col \<notin> fst ` set (take k ms) \<longrightarrow>
                 in_index (extended_at R ms k row c) col = in_index row col \<and>
                 series_get (extended_at R ms k row c) col = series_get row col)"
proof -
  obtain vs ext c1 where p: "transform_fields R (take k ms) row c = (vs, ext, c1)"
    by (cases "transform_fields R (take k ms) row c")
  have ext: "extended_at R ms k row c = ext" and vs: "computed R (take k ms) row c = vs"
    using p by (simp_all add: extended_at_def computed_def)
  note at = transform_fields_at[OF assms(1), of R row c]
  have d: "distinct (map fst (take k ms))"
    using assms(2) by (simp add: take_map[symmetric])
  have early: "in_index ext (fst (ms ! j)) \<and> series_get ext (fst (ms ! j)) = computed R ms row c ! j"
    if j: "j < k" for j
  proof -
    from j assms(1) have jl: "j < length (take k ms)" by simp
    from j have tj: "take k ms ! j = ms ! j" by simp
    from transform_fields_reads[OF p d jl] tj have "series_get ext (fst (ms ! j)) = vs ! j"
      by simp
    moreover from at vs j have "vs ! j = computed R ms row c ! j"
      by (metis nth_take)
    moreover from jl have "fst (take k ms ! j) \<in> fst ` set (take k ms)"
      by (metis imageI nth_mem)
    with transform_fields_extended[OF p] tj have "in_index ext (fst (ms ! j))"
      by simp
    ultimately show ?thesis by simp
  qed
  from early transform_fields_extended[OF p] ext
  show ?thesis by simp
qed

lemma transform_step_table:
  assumes "mappings cfg \<noteq> []"
  shows "returned (TransformStep_execute R df cfg c h) = Inr (length h) \<and>
         heap_after (TransformStep_execute R df cfg c h)
           = h @ [\<lparr> columns = map fst (mappings cfg),
                    rows = fst (transform_rows R (mappings cfg) (rows (h ! df)) c) \<rparr>] \<and>
         context_after (TransformStep_execute R df cfg c h)
           = snd (transform_rows R (mappings cfg) (rows (h ! df)) c)"
  using assms
  by (simp add: TransformStep_execute_def returned_def heap_after_def context_after_def
                iterrows_def alloc_def Let_def split: prod.splits)

text \<open>
  C3. The mappings of a transform step are a dict, so their names are distinct. With at
  least one mapping, the step returns a fresh table whose columns are the declared fields
  in declared order and whose rows carry the labels of the input rows. For the row at
  position \<open>i\<close> and the mapping at position \<open>k\<close>: the row of the result holds the values
  computed for that row, in mapping order, and its cell for the field at \<open>k\<close> is the value
  computed at \<open>k\<close>. That value is what the mapping at \<open>k\<close> evaluates to on the extended
  row reached at \<open>k\<close>: the transformer registered for the mapping's type is called on
  that extended row, and the field gets what it returns, \<open>None\<close> when it raises. The
  extended row holds every field declared at a position before \<open>k\<close>, with the value
  computed for it for this row (also when the input row has a column of the same name),
  and it agrees with the input row on every other label.
\<close>

theorem C3_mapping_sees_earlier_fields:
  assumes "mappings cfg \<noteq> []"
    and "distinct (map fst (mappings cfg))"
    and "i < length (rows (h ! df))"
    and "k < length (mappings cfg)"
  shows "returned (TransformStep_execute R df cfg c h) = Inr (length h) \<and>
         columns (heap_after (TransformStep_execute R df cfg c h) ! length h)
           = map fst (mappings cfg) \<and>
         map fst (rows (heap_after (TransformStep_execute R df cfg c h) ! length h))
           = map fst (rows (h ! df)) \<and>
         snd (rows (heap_after (TransformStep_execute R df cfg c h) ! length h) ! i)
           = zip (map fst (mappings cfg))
                 (computed R (mappings cfg) (snd (rows (h ! df) ! i))
                    (row_context R (mappings cfg) (rows (h ! df)) i c)) \<and>
         series_get (snd (rows (heap_after (TransformStep_execute R df cfg c h) ! length h) ! i))
                    (fst (mappings cfg ! k))
           = computed R (mappings cfg) (snd (rows (h ! df) ! i))
               (row_context R (mappings cfg) (rows (h ! df)) i c) ! k \<and>
         computed R (mappings cfg) (snd (rows (h ! df) ! i))
             (row_context R (mappings cfg) (rows (h ! df)) i c) ! k
           = fst (eval_mapping R
                    (extended_at R (mappings cfg) k (snd (rows (h ! df) ! i))
                       (row_context R (mappings cfg) (rows (h ! df)) i c))
                    (fst (mappings cfg ! k)) (snd (mappings cfg ! k))
                    (context_at R (mappings cfg) k (snd (rows (h ! df) ! i))
                       (row_context R (mappings cfg) (rows (h ! df)) i c))) \<and>
         (\<forall>tr. R (fm_type (snd (mappings cfg ! k))) = Some tr \<longrightarrow>
            computed R (mappings cfg) (snd (rows (h ! df) ! i))
                (row_context R (mappings cfg) (rows (h ! df)) i c) ! k
              = (case fst (tr (extended_at R (mappings cfg) k (snd (rows (h ! df) ! i))
                                 (row_context R (mappings cfg) (rows (h ! df)) i c))
                              (snd (mappings cfg ! k))
                              (current_row
                                 (context_at R (mappings cfg) k (snd (rows (h ! df) ! i))
                                    (row_context R (mappings cfg) (rows (h ! df)) i c)))
                              (context_at R (mappings cfg) k (snd (rows (h ! df) ! i))
                                 (row_context R (mappings cfg) (rows (h ! df)) i c))) of
                   Inr v \<Rightarrow> v | Inl e \<Rightarrow> PNone)) \<and>
         (\<forall>j<k. in_index (extended_at R (mappings cfg) k (snd (rows (h ! df) ! i))
                            (row_context R (mappings cfg) (rows (h ! df)) i c))
                         (fst (mappings cfg ! j)) \<and>
                 series_get (extended_at R (mappings cfg) k (snd (rows (h ! df) ! i))
                               (row_context R (mappings cfg) (rows (h ! df)) i c))
                            (fst (mappings cfg ! j))
                   = computed R (mappings cfg) (snd (rows (h ! df) ! i))
                       (row_context R (mappings cfg) (rows (h ! df)) i c) ! j) \<and>
         (\<forall>col. col \<notin> fst ` set (take k (mappings cfg)) \<longrightarrow>
                 in_index (extended_at R (mappings cfg) k (snd (rows (h ! df) ! i))
                             (row_context R (mappings cfg) (rows (h ! df)) i c)) col
                   = in_index (snd (rows (h ! df) ! i)) col \<and>
                 series_get (extended_at R (mappings cfg) k (snd (rows (h ! df) ! i))
                               (row_context R (mappings cfg) (rows (h ! df)) i c)) col
                   = series_get (snd (rows (h ! df) ! i)) col)"
proof -
  let ?ms = "mappings cfg" and ?rws = "rows (h ! df)"
  let ?t = "TransformStep_execute R df cfg c h"
  let ?row = "snd (?rws ! i)"
  let ?ci = "row_context R ?ms ?rws i c"
  note tb = transform_step_table[OF assms(1), of R df c h]
  from tb have ret: "returned ?t = Inr (length h)" by simp
  from tb have out: "heap_after ?t ! length h
                       = \<lparr> columns = map fst ?ms, rows = fst (transform_rows R ?ms ?rws c) \<rparr>"
    by simp
  have cols: "columns (heap_after ?t ! length h) = map fst ?ms"
    unfolding out by simp
  have labels: "map fst (rows (heap_after ?t ! length h)) = map fst ?rws"
    unfolding out by (simp add: transform_rows_labels)
  have rowi: "snd (rows (heap_after ?t ! length h) ! i) = zip (map fst ?ms) (computed R ?ms ?row ?ci)"
    unfolding out by (simp add: transform_rows_nth[OF assms(3)])
  have cell: "series_get (snd (rows (heap_after ?t ! length h) ! i)) (fst (?ms ! k))
                = computed R ?ms ?row ?ci ! k"
    unfolding rowi
    using series_get_zip[of "map fst ?ms" "computed R ?ms ?row ?ci" k] assms(2,4)
    by (simp add: computed_length)
  note at = transform_fields_at[OF assms(4), of R ?row ?ci, THEN conjunct1]
  have call: "\<forall>tr. R (fm_type (snd (?ms ! k))) = Some tr \<longrightarrow>
            computed R ?ms ?row ?ci ! k
              = (case fst (tr (extended_at R ?ms k ?row ?ci) (snd (?ms ! k))
                              (current_row (context_at R ?ms k ?row ?ci))
                              (context_at R ?ms k ?row ?ci)) of
                   Inr v \<Rightarrow> v | Inl e \<Rightarrow> PNone)"
    unfolding at by (simp add: eval_mapping_calls)
  from ret cols labels rowi cell at call extended_at_spec[OF assms(4,2), of R ?row ?ci]
  show ?thesis by blast
qed

text \<open>
  The witness: the second input row has the columns \<open>a\<close> and \<open>c\<close> with the values 2 and
  3. The step declares the field \<open>a\<close> as the constant 5 and then the field \<open>b\<close> as the
  formula \<open>{a} * {c}\<close>: the formula transformer is called on the extended row, where \<open>a\<close>
  is 5, and the text evaluated for \<open>b\<close> is \<open>5.0 * 3.0\<close>, from the computed \<open>a\<close> and the
  input's \<open>c\<close>, and not \<open>2.0 * 3.0\<close>.
\<close>

theorem C3_mapping_sees_earlier_fields_witness:
  "mappings five_times \<noteq> [] \<and>
   distinct (map fst (mappings five_times)) \<and>
   (1::nat) < length (rows readings) \<and>
   (1::nat) < length (mappings five_times) \<and>
   mappings five_times ! 1 = (''b'', formula_of ''{a} * {c}'') \<and>
   registry_of demo_lib (fm_type (formula_of ''{a} * {c}''))
     = Some (FormulaTransformer_transform demo_lib) \<and>
   returned five_times_call = Inr 1 \<and>
   heap_after five_times_call ! 1
     = \<lparr> columns = [''a'', ''b''],
         rows = [(LInt 0, [(''a'', PInt 5), (''b'', PStr ''5.0 * 9.0'')]),
                 (LInt 1, [(''a'', PInt 5), (''b'', PStr ''5.0 * 3.0'')])] \<rparr> \<and>
   series_get (snd (rows readings ! 1)) ''a'' = PInt 2 \<and>
   series_get (snd (rows readings ! 1)) ''c'' = PInt 3 \<and>
   series_get reading_extended ''a'' = PInt 5 \<and>
   series_get reading_extended ''c'' = PInt 3 \<and>
   series_get (snd (rows (heap_after five_times_call ! 1) ! 1)) ''b''
     = (case fst (FormulaTransformer_transform demo_lib reading_extended
                    (formula_of ''{a} * {c}'') 1
                    (context_at (registry_of demo_lib) (mappings five_times) 1
                       (snd (rows readings ! 1)) reading_context)) of
          Inr v \<Rightarrow> v | Inl e \<Rightarrow> PNone) \<and>
   series_get (snd (rows (heap_after five_times_call ! 1) ! 1)) ''b'' = PStr ''5.0 * 3.0''"
proof -
  let ?R = "registry_of demo_lib"
  let ?ms = "mappings five_times"
  let ?row = "snd (rows ([readings] ! 0) ! 1)"
  let ?ci = "row_context ?R ?ms (rows ([readings] ! 0)) 1 ctx0"
  have n: "mappings five_times \<noteq> []"
    by (simp add: five_times_def)
  have d: "distinct (map fst (mappings five_times))"
    by (simp add: five_times_def)
  have i: "(1::nat) < length (rows ([readings] ! 0))"
    by (simp add: readings_def)
  have k: "(1::nat) < length (mappings five_times)"
    by (simp add: five_times_def)
  have m: "mappings five_times ! 1 = (''b'', formula_of ''{a} * {c}'')"
          "mappings five_times ! 0 = (''a'', static_five)"
    by (simp_all add: five_times_def)
  have g: "registry_of demo_lib (fm_type (formula_of ''{a} * {c}''))
             = Some (FormulaTransformer_transform demo_lib)"
    by (simp add: registry_of_def formula_of_def bare_mapping_def)
  have t: "heap_after five_times_call ! 1
     = \<lparr> columns = [''a'', ''b''],
         rows = [(LInt 0, [(''a'', PInt 5), (''b'', PStr ''5.0 * 9.0'')]),
                 (LInt 1, [(''a'', PInt 5), (''b'', PStr ''5.0 * 3.0'')])] \<rparr>"
    by code_simp
  have v: "computed ?R ?ms ?row ?ci = [PInt 5, PStr ''5.0 * 3.0'']"
    by code_simp
  have r: "series_get (snd (rows readings ! 1)) ''a'' = PInt 2"
          "series_get (snd (rows readings ! 1)) ''c'' = PInt 3"
    by code_simp+
  have cr: "current_row (context_at ?R ?ms 1 ?row ?ci) = 1"
    by code_simp
  have nc: "''c'' \<notin> fst ` set (take 1 (mappings five_times))"
    by (simp add: five_times_def)
  note inst = C3_mapping_sees_earlier_fields [OF n d i k, of ?R ctx0]
  have e: "reading_extended = extended_at ?R ?ms 1 ?row ?ci"
          "reading_context = ?ci"
    by (simp_all add: reading_extended_def reading_context_def)
  have ret: "returned five_times_call = Inr 1"
    using inst[THEN conjunct1] by (simp add: five_times_call_def)
  note rest = inst[THEN conjunct2, THEN conjunct2, THEN conjunct2, THEN conjunct2]
  have cell: "series_get (snd (rows (heap_after five_times_call ! 1) ! 1)) ''b''
                = computed ?R ?ms ?row ?ci ! 1"
    using rest[THEN conjunct1] m(1) by (simp add: five_times_call_def)
  have call: "computed ?R ?ms ?row ?ci ! 1
                = (case fst (FormulaTransformer_transform demo_lib reading_extended
                               (formula_of ''{a} * {c}'') 1
                               (context_at ?R ?ms 1 ?row ?ci)) of
                     Inr v \<Rightarrow> v | Inl e \<Rightarrow> PNone)"
    using rest[THEN conjunct2, THEN conjunct2, THEN conjunct1, rule_format, of
                 "FormulaTransformer_transform demo_lib"] g
    unfolding m e cr by simp
  have a: "series_get reading_extended ''a'' = computed ?R ?ms ?row ?ci ! 0"
    using rest[THEN conjunct2, THEN conjunct2, THEN conjunct2, THEN conjunct1, rule_format, of 0]
    unfolding m e by simp
  have c: "series_get reading_extended ''c'' = series_get ?row ''c''"
    using rest[THEN conjunct2, THEN conjunct2, THEN conjunct2, THEN conjunct2, rule_format,
               OF nc]
    unfolding e by simp
  from n d i k m(1) g ret t r a c cell call v show ?thesis
    unfolding e by simp
qed

section \<open>Formula evaluation\<close>

lemma startswith_set: "startswith s p \<Longrightarrow> set p \<subseteq> set s"
  by (induction s p rule: startswith.induct) auto

lemma match_coalesce_needs_brace: "CHR ''{'' \<notin> set s \<Longrightarrow> match_coalesce s = None"
proof -
  assume n: "CHR ''{'' \<notin> set s"
  have "\<not> startswith s ''COALESCE({''"
  proof
    assume "startswith s ''COALESCE({''"
    from startswith_set[OF this] n show False by auto
  qed
  then show ?thesis by (simp add: match_coalesce_def)
qed

lemma handle_coalesce_plain:
  "CHR ''{'' \<notin> set s \<Longrightarrow> handle_coalesce_from 0 L row coerce s = Inr s"
  by (induction s) (auto simp: match_coalesce_needs_brace)

lemma find_refs_plain: "CHR ''{'' \<notin> set s \<Longrightarrow> find_refs_from 0 s = []"
  by (induction s) auto

lemma formula_text_plain:
  "CHR ''{'' \<notin> set (expression fc) \<Longrightarrow> formula_text L fc row = Inr (expression fc)"
  by (simp add: formula_text_def handle_coalesce_def handle_coalesce_plain find_refs_def
                find_refs_plain)

text \<open>
  C2 does not hold of the code. An expression without an opening brace has no
  placeholder and no \<open>COALESCE\<close>, so the text after the substitutions is the expression
  itself, and the transformer hands it to the built-in \<open>eval\<close> as it is: whatever \<open>eval\<close>
  returns for it is the value of the field, for every row, and only an exception raised
  by \<open>eval\<close> itself gives \<open>None\<close> and a WARNING. No token of the text is inspected before
  the evaluation, so \<open>2 ** 3\<close>, a comparison, a string or an attribute access are
  evaluated as Python evaluates them.
\<close>

theorem C2_formula_text_evaluated_unchecked:
  assumes "fm_formula m = Some fc" and "CHR ''{'' \<notin> set (expression fc)"
  shows "FormulaTransformer_transform L row m ridx c =
           (case py_eval L (expression fc) of
              Inr result \<Rightarrow> (Inr result, c)
            | Inl e \<Rightarrow>
                (Inr PNone,
                 add_warning (''Formula evaluation failed: '' @ exn_str e) None
                   (PStr (expression fc)) (Some ridx) c))"
  using assms
  by (simp add: FormulaTransformer_transform_def formula_text_plain split: sum.splits)

text \<open>
  At the expression \<open>2 ** 3\<close>, with the interpretation whose \<open>eval\<close> returns its text:
  the text that reaches \<open>eval\<close> is \<open>2 ** 3\<close>.
\<close>

theorem C2_formula_text_evaluated_unchecked_witness:
  "fm_formula (formula_of ''2 ** 3'') = Some \<lparr>expression = ''2 ** 3'', coerce_numeric = True\<rparr> \<and>
   CHR ''{'' \<notin> set (expression \<lparr>expression = ''2 ** 3'', coerce_numeric = True\<rparr>) \<and>
   FormulaTransformer_transform demo_lib [(''a'', PInt 1)] (formula_of ''2 ** 3'') 0 ctx0
     = (Inr (PStr ''2 ** 3''), ctx0)"
proof -
  have f: "fm_formula (formula_of ''2 ** 3'')
             = Some \<lparr>expression = ''2 ** 3'', coerce_numeric = True\<rparr>"
    by (simp add: formula_of_def bare_mapping_def)
  have n: "CHR ''{'' \<notin> set (expression \<lparr>expression = ''2 ** 3'', coerce_numeric = True\<rparr>)"
    by simp
  from f n C2_formula_text_evaluated_unchecked [OF f n, of demo_lib "[(''a'', PInt 1)]" 0 ctx0]
  show ?thesis by (simp add: demo_lib_def)
qed


end
